theory Spec2Isabelle
  imports Main "HOL-Library.Word"
begin

section \<open>Mixtape: the data store and the command processor\<close>

text \<open>
  A shallow embedding of the Go program \<^verbatim>\<open>mixtape\<close>: the entity records, the
  \<^verbatim>\<open>DataStore\<close> with its three lookup tables and its playlist id counter, and the
  \<^verbatim>\<open>CommandProcessor\<close>. Methods with a pointer receiver take the receiver's value
  and return the updated one. A Go run-time panic is the left injection of the result; a
  Go \<^verbatim>\<open>error\<close> return value is an \<open>error option\<close> (\<open>None\<close> is \<^verbatim>\<open>nil\<close>)
  or the left injection of an \<open>error + 'a\<close>. Go's \<^verbatim>\<open>int\<close> is taken at 64 bits
  (the width on amd64 and arm64) and is a \<open>64 word\<close> read as two's complement.
\<close>

subsection \<open>Entity records\<close>

record User =
  Id :: string
  Name :: string

record Playlist =
  Id :: string
  UserId :: string
  SongIds :: "string list"

record Song =
  Id :: string
  Artist :: string
  Title :: string

subsection \<open>Errors and panics\<close>

text \<open>
  \<open>ErrSyntax\<close> and \<open>ErrRange\<close> are the two causes a \<^verbatim>\<open>*strconv.NumError\<close> carries.
\<close>

datatype num_err = ErrSyntax | ErrRange

text \<open>
  The error values of the program, one constructor for each error the code creates:
  \<^item> \<open>MalformedIdentifier s e\<close>: the \<^verbatim>\<open>*strconv.NumError\<close> of \<^verbatim>\<open>strconv.Atoi(s)\<close>,
    returned as it is by \<^verbatim>\<open>buildLookupTables\<close>;
  \<^item> \<open>UnknownUser\<close>: "The user id does not exist";
  \<^item> \<open>EmptyPlaylist\<close>: "A playlist must contain at least one song (zero sing IDs were provided)";
  \<^item> \<open>UnknownSong\<close>: "One or more of the song IDs provided is invalid" (AddNewPlaylist) and
    "Song id does not exist" (AddSongToPlaylist);
  \<^item> \<open>UnknownPlaylist\<close>: "Playlist id does not exist";
  \<^item> \<open>EmptyCommand\<close>: "Can't process empty command";
  \<^item> \<open>UnknownCommand c\<close>: "Unrecognized command: `c`";
  \<^item> \<open>ArityError c\<close>: "Incorrect number of arguments for `c`" (with the word "command"
    appended by rm-playlist and add-song-to-playlist);
  \<^item> \<open>CommandFailed command e\<close>: "Problem with `command`: e", the wrapper that
    \<^verbatim>\<open>ProcessCommand\<close> puts around every error of a handler;
  \<^item> \<open>ErrorsEncountered\<close>: "At least one error was encountered. See CommandProcessor.Errors()".
\<close>

datatype error =
    MalformedIdentifier string num_err
  | UnknownUser
  | EmptyPlaylist
  | UnknownSong
  | UnknownPlaylist
  | EmptyCommand
  | UnknownCommand string
  | ArityError string
  | CommandFailed "string list" error
  | ErrorsEncountered

text \<open>
  \<open>IndexOutOfRange i n\<close> is Go's "index out of range [i] with length n".
\<close>

datatype panic = IndexOutOfRange int nat

subsection \<open>strconv.Atoi and strconv.Itoa\<close>

text \<open>
  The two functions of Go's standard library that the store calls, after the library's
  source. \<^verbatim>\<open>Atoi(s)\<close> is \<^verbatim>\<open>ParseInt(s, 10, 0)\<close> (its fast path for short strings gives
  the same results): an optional sign \<^verbatim>\<open>+\<close> or \<^verbatim>\<open>-\<close>, then \<^verbatim>\<open>ParseUint\<close> on the
  rest, then the range check against \<open>2 ^ 63\<close>. \<^verbatim>\<open>ParseUint\<close> in base 10 reads
  the bytes from the left: a byte that is not a decimal digit is a syntax error, a value
  beyond \<open>2 ^ 64 - 1\<close> is a range error, whichever comes first.
\<close>

type_synonym go_int = "64 word"

definition maxUint64 :: nat where
  "maxUint64 = 2 ^ 64 - 1"

definition cutoff :: nat where
  "cutoff = 2 ^ 63"

definition digitVal :: "char \<Rightarrow> nat option" where
  "digitVal c =
     (if (48::nat) \<le> of_char c \<and> of_char c \<le> (57::nat) then Some (of_char c - 48) else None)"

fun parseUintLoop :: "nat \<Rightarrow> string \<Rightarrow> num_err + nat" where
  "parseUintLoop n [] = Inr n"
| "parseUintLoop n (c # cs) =
     (case digitVal c of
        None \<Rightarrow> Inl ErrSyntax
      | Some d \<Rightarrow>
          if maxUint64 < n * 10 + d then Inl ErrRange
          else parseUintLoop (n * 10 + d) cs)"

definition ParseUint :: "string \<Rightarrow> num_err + nat" where
  "ParseUint s = (if s = [] then Inl ErrSyntax else parseUintLoop 0 s)"

definition ParseInt :: "string \<Rightarrow> num_err + go_int" where
  "ParseInt s =
     (case s of
        [] \<Rightarrow> Inl ErrSyntax
      | c # cs \<Rightarrow>
          let neg = (c = CHR ''-'');
              s' = (if c = CHR ''+'' \<or> c = CHR ''-'' then cs else s)
          in case ParseUint s' of
               Inl e \<Rightarrow> Inl e
             | Inr un \<Rightarrow>
                 if \<not> neg \<and> cutoff \<le> un then Inl ErrRange
                 else if neg \<and> cutoff < un then Inl ErrRange
                 else Inr (if neg then - of_nat un else of_nat un))"

definition Atoi :: "string \<Rightarrow> num_err + go_int" where
  "Atoi s = ParseInt s"

text \<open>
  \<^verbatim>\<open>Itoa(i)\<close> is \<^verbatim>\<open>FormatInt(int64(i), 10)\<close>: the decimal digits of the magnitude,
  most significant first, with a leading \<^verbatim>\<open>-\<close> for a negative value.
\<close>

definition digits :: string where
  "digits = ''0123456789''"

fun formatBits :: "nat \<Rightarrow> string" where
  "formatBits u =
     (if 10 \<le> u then formatBits (u div 10) @ [digits ! (u mod 10)] else [digits ! u])"

declare formatBits.simps [simp del]

definition Itoa :: "go_int \<Rightarrow> string" where
  "Itoa i = (if sint i < 0 then CHR ''-'' # formatBits (nat (- sint i))
             else formatBits (nat (sint i)))"

subsection \<open>The data store\<close>

record DataStore =
  Users :: "User list"
  Playlists :: "Playlist list"
  Songs :: "Song list"
  userMap :: "string \<rightharpoonup> nat"
  playlistMap :: "string \<rightharpoonup> nat"
  songMap :: "string \<rightharpoonup> nat"
  nextPlaylistId :: go_int

text \<open>
  What \<^verbatim>\<open>json.Unmarshal\<close> hands to \<^verbatim>\<open>buildLookupTables\<close>: the three exported
  collections in the order of the snapshot, the private fields at their zero values.
\<close>

record Snapshot =
  users :: "User list"
  playlists :: "Playlist list"
  songs :: "Song list"

definition unmarshal :: "Snapshot \<Rightarrow> DataStore" where
  "unmarshal snap =
     \<lparr>Users = users snap, Playlists = playlists snap, Songs = songs snap,
      userMap = Map.empty, playlistMap = Map.empty, songMap = Map.empty,
      nextPlaylistId = 0\<rparr>"

text \<open>
  The loops \<^verbatim>\<open>for i, x := range xs { m[x.Id] = i }\<close> over the users and the songs;
  \<open>i\<close> is the position of the head of the remaining list.
\<close>

fun indexLoop :: "('a \<Rightarrow> string) \<Rightarrow> nat \<Rightarrow> 'a list \<Rightarrow> (string \<rightharpoonup> nat) \<Rightarrow> (string \<rightharpoonup> nat)" where
  "indexLoop ident i [] m = m"
| "indexLoop ident i (x # xs) m = indexLoop ident (Suc i) xs (m(ident x \<mapsto> i))"

text \<open>
  The loop over the playlists: it stores the position, then parses the id; a parse error
  leaves the loop (and the function) with the table as built so far.
\<close>

fun playlistLoop :: "nat \<Rightarrow> Playlist list \<Rightarrow> (string \<rightharpoonup> nat) \<Rightarrow> go_int
    \<Rightarrow> (string \<rightharpoonup> nat) \<times> go_int \<times> error option" where
  "playlistLoop i [] m maxPlaylistId = (m, maxPlaylistId, None)"
| "playlistLoop i (playlist # rest) m maxPlaylistId =
     (let m' = m(Playlist.Id playlist \<mapsto> i) in
      case Atoi (Playlist.Id playlist) of
        Inl e \<Rightarrow> (m', maxPlaylistId, Some (MalformedIdentifier (Playlist.Id playlist) e))
      | Inr intId \<Rightarrow>
          playlistLoop (Suc i) rest m'
            (if maxPlaylistId <s intId then intId else maxPlaylistId))"

definition buildLookupTables :: "DataStore \<Rightarrow> DataStore \<times> error option" where
  "buildLookupTables ds =
     (let ds1 = ds\<lparr>userMap := indexLoop User.Id 0 (Users ds) Map.empty\<rparr>;
          ds2 = ds1\<lparr>songMap := indexLoop Song.Id 0 (Songs ds1) Map.empty\<rparr>
      in case playlistLoop 0 (Playlists ds2) Map.empty 0 of
           (m, maxPlaylistId, Some err) \<Rightarrow> (ds2\<lparr>playlistMap := m\<rparr>, Some err)
         | (m, maxPlaylistId, None) \<Rightarrow>
             (ds2\<lparr>playlistMap := m, nextPlaylistId := maxPlaylistId + 1\<rparr>, None))"

text \<open>
  \<^verbatim>\<open>NewDataStoreFromFile\<close> after the file has been read and decoded: it returns the
  store together with the error of \<^verbatim>\<open>buildLookupTables\<close>.
\<close>

definition NewDataStore :: "Snapshot \<Rightarrow> DataStore \<times> error option" where
  "NewDataStore snap = buildLookupTables (unmarshal snap)"

subsection \<open>RemovePlaylist\<close>

text \<open>
  Swap-remove. \<^verbatim>\<open>ds.Playlists[lastIndex]\<close> with \<^verbatim>\<open>lastIndex = -1\<close> and
  \<^verbatim>\<open>ds.Playlists[targetPlaylistIndex]\<close> beyond the length panic in Go, and so they do
  here. The returned error is always \<^verbatim>\<open>nil\<close>.
\<close>

definition RemovePlaylist :: "DataStore \<Rightarrow> string \<Rightarrow> panic + (DataStore \<times> bool \<times> error option)" where
  "RemovePlaylist ds ident =
     (case playlistMap ds ident of
        None \<Rightarrow> Inr (ds, False, None)
      | Some targetPlaylistIndex \<Rightarrow>
          if length (Playlists ds) = 0 then Inl (IndexOutOfRange (- 1) 0)
          else
            let lastIndex = length (Playlists ds) - 1;
                lastPlaylist = Playlists ds ! lastIndex
            in if length (Playlists ds) \<le> targetPlaylistIndex
               then Inl (IndexOutOfRange (int targetPlaylistIndex) (length (Playlists ds)))
               else
                 let ds1 = ds\<lparr>Playlists := (Playlists ds)[targetPlaylistIndex := lastPlaylist]\<rparr>;
                     ds2 = ds1\<lparr>Playlists := take lastIndex (Playlists ds1)\<rparr>;
                     ds3 = ds2\<lparr>playlistMap := (playlistMap ds2)(ident := None)\<rparr>;
                     ds4 = ds3\<lparr>playlistMap :=
                              (playlistMap ds3)(Playlist.Id lastPlaylist \<mapsto> targetPlaylistIndex)\<rparr>
                 in Inr (ds4, True, None))"

subsection \<open>AddNewPlaylist\<close>

definition generatePlaylistId :: "DataStore \<Rightarrow> DataStore \<times> string" where
  "generatePlaylistId ds =
     (let playlistId = nextPlaylistId ds
      in (ds\<lparr>nextPlaylistId := nextPlaylistId ds + 1\<rparr>, Itoa playlistId))"

text \<open>The loop over \<^verbatim>\<open>songIds\<close> that returns at the first id missing from the table.\<close>

fun checkSongIds :: "(string \<rightharpoonup> nat) \<Rightarrow> string list \<Rightarrow> error option" where
  "checkSongIds m [] = None"
| "checkSongIds m (songId # rest) =
     (if m songId = None then Some UnknownSong else checkSongIds m rest)"

text \<open>
  The store holds lists by value, so \<^verbatim>\<open>songIdsCopy\<close> is the list of the strings that
  \<^verbatim>\<open>make\<close> and \<^verbatim>\<open>copy\<close> put into the new array (see \<open>copySongIds\<close> below for the
  two with an explicit memory).
\<close>

definition AddNewPlaylist :: "DataStore \<Rightarrow> string \<Rightarrow> string list \<Rightarrow> DataStore \<times> (error + string)" where
  "AddNewPlaylist ds userId songIds =
     (if userMap ds userId = None then (ds, Inl UnknownUser)
      else if length songIds = 0 then (ds, Inl EmptyPlaylist)
      else case checkSongIds (songMap ds) songIds of
        Some err \<Rightarrow> (ds, Inl err)
      | None \<Rightarrow>
          let songIdsCopy = songIds;
              (ds1, newId) = generatePlaylistId ds;
              newPlaylist = \<lparr>Playlist.Id = newId, UserId = userId, SongIds = songIdsCopy\<rparr>;
              ds2 = ds1\<lparr>Playlists := Playlists ds1 @ [newPlaylist]\<rparr>;
              ds3 = ds2\<lparr>playlistMap :=
                       (playlistMap ds2)(Playlist.Id newPlaylist \<mapsto> length (Playlists ds2) - 1)\<rparr>
          in (ds3, Inr (Playlist.Id newPlaylist)))"

subsection \<open>The defensive copy, with an explicit memory\<close>

text \<open>
  A \<^verbatim>\<open>[]string\<close> is a window on a backing array. The memory is the list of the backing
  arrays, an address is a position in it, and a slice names its array, where its window
  starts and how long it is.
  \<^item> \<open>makeSlice\<close> is \<^verbatim>\<open>make([]string, n)\<close>: it allocates a new array of \<open>n\<close> empty
    strings;
  \<^item> \<open>copySlice\<close> is \<^verbatim>\<open>copy(dst, src)\<close>: it writes the first
    \<open>min (len dst) (len src)\<close> elements of \<open>src\<close> into the window of \<open>dst\<close>;
  \<^item> \<open>setIndex\<close> is the assignment \<^verbatim>\<open>s[i] = v\<close>, which panics outside the window.
\<close>

type_synonym memory = "string list list"

record slice =
  array :: nat
  offset :: nat
  len :: nat

definition elems :: "memory \<Rightarrow> slice \<Rightarrow> string list" where
  "elems mem s = take (len s) (drop (offset s) (mem ! array s))"

definition makeSlice :: "memory \<Rightarrow> nat \<Rightarrow> memory \<times> slice" where
  "makeSlice mem n = (mem @ [replicate n []], \<lparr>array = length mem, offset = 0, len = n\<rparr>)"

definition copySlice :: "memory \<Rightarrow> slice \<Rightarrow> slice \<Rightarrow> memory" where
  "copySlice mem dst src =
     (let vals = take (min (len dst) (len src)) (elems mem src);
          a = mem ! array dst
      in mem[array dst := take (offset dst) a @ vals @ drop (offset dst + length vals) a])"

definition setIndex :: "memory \<Rightarrow> slice \<Rightarrow> nat \<Rightarrow> string \<Rightarrow> panic + memory" where
  "setIndex mem s i v =
     (if len s \<le> i then Inl (IndexOutOfRange (int i) (len s))
      else Inr (mem[array s := (mem ! array s)[offset s + i := v]]))"

text \<open>The copy of \<^verbatim>\<open>songIds\<close> that AddNewPlaylist makes before it stores them.\<close>

definition copySongIds :: "memory \<Rightarrow> slice \<Rightarrow> memory \<times> slice" where
  "copySongIds mem songIds =
     (let (mem1, songIdsCopy) = makeSlice mem (len songIds)
      in (copySlice mem1 songIdsCopy songIds, songIdsCopy))"

text \<open>A slice of the program lies within an allocated array.\<close>

definition validSlice :: "memory \<Rightarrow> slice \<Rightarrow> bool" where
  "validSlice mem s \<longleftrightarrow> array s < length mem \<and> offset s + len s \<le> length (mem ! array s)"

subsection \<open>AddSongToPlaylist\<close>

definition AddSongToPlaylist :: "DataStore \<Rightarrow> string \<Rightarrow> string \<Rightarrow> panic + (DataStore \<times> error option)" where
  "AddSongToPlaylist ds playlistId songId =
     (if songMap ds songId = None then Inr (ds, Some UnknownSong)
      else case playlistMap ds playlistId of
        None \<Rightarrow> Inr (ds, Some UnknownPlaylist)
      | Some playlistIndex \<Rightarrow>
          if length (Playlists ds) \<le> playlistIndex
          then Inl (IndexOutOfRange (int playlistIndex) (length (Playlists ds)))
          else
            let songIds = SongIds (Playlists ds ! playlistIndex);
                playlist = (Playlists ds ! playlistIndex)\<lparr>SongIds := songIds @ [songId]\<rparr>
            in Inr (ds\<lparr>Playlists := (Playlists ds)[playlistIndex := playlist]\<rparr>, None))"

subsection \<open>The command processor\<close>

definition ADD_PLAYLIST :: string where
  "ADD_PLAYLIST = ''add-playlist''"

definition ADD_SONG_TO_PLAYLIST :: string where
  "ADD_SONG_TO_PLAYLIST = ''add-song-to-playlist''"

definition REMOVE_PLAYLIST :: string where
  "REMOVE_PLAYLIST = ''rm-playlist''"

text \<open>
  The processor holds a pointer to the one store it works on; the store is a field here,
  and every handler returns the processor with the store as the call left it.
\<close>

record CommandProcessor =
  Commands :: "string list list"
  DataStore :: DataStore
  errors :: "error list"

definition NewCommandProcessor :: "string list list \<Rightarrow> DataStore \<Rightarrow> CommandProcessor" where
  "NewCommandProcessor commands dataStore =
     \<lparr>Commands = commands, DataStore = dataStore, errors = []\<rparr>"

type_synonym handler = "CommandProcessor \<Rightarrow> string list \<Rightarrow> panic + (CommandProcessor \<times> error option)"

definition addNewPlaylist :: handler where
  "addNewPlaylist cp command =
     (if length command < 3 then
        (case command of
           [] \<Rightarrow> Inl (IndexOutOfRange 0 0)
         | c # _ \<Rightarrow> Inr (cp, Some (ArityError c)))
      else
        let userId = command ! 1;
            songIds = drop 2 command
        in case AddNewPlaylist (DataStore cp) userId songIds of
             (ds, Inl err) \<Rightarrow> Inr (cp\<lparr>DataStore := ds\<rparr>, Some err)
           | (ds, Inr _) \<Rightarrow> Inr (cp\<lparr>DataStore := ds\<rparr>, None))"

definition removePlaylist :: handler where
  "removePlaylist cp command =
     (if length command \<noteq> 2 then
        (case command of
           [] \<Rightarrow> Inl (IndexOutOfRange 0 0)
         | c # _ \<Rightarrow> Inr (cp, Some (ArityError c)))
      else
        let playlistId = command ! 1
        in case RemovePlaylist (DataStore cp) playlistId of
             Inl p \<Rightarrow> Inl p
           | Inr (ds, _, Some err) \<Rightarrow> Inr (cp\<lparr>DataStore := ds\<rparr>, Some err)
           | Inr (ds, _, None) \<Rightarrow> Inr (cp\<lparr>DataStore := ds\<rparr>, None))"

definition addSongToPlaylist :: handler where
  "addSongToPlaylist cp command =
     (if length command \<noteq> 3 then
        (case command of
           [] \<Rightarrow> Inl (IndexOutOfRange 0 0)
         | c # _ \<Rightarrow> Inr (cp, Some (ArityError c)))
      else
        let playlistId = command ! 1;
            songId = command ! 2
        in case AddSongToPlaylist (DataStore cp) playlistId songId of
             Inl p \<Rightarrow> Inl p
           | Inr (ds, err) \<Rightarrow> Inr (cp\<lparr>DataStore := ds\<rparr>, err))"

definition commandHandlers :: "string \<rightharpoonup> handler" where
  "commandHandlers =
     [ADD_PLAYLIST \<mapsto> addNewPlaylist,
      ADD_SONG_TO_PLAYLIST \<mapsto> addSongToPlaylist,
      REMOVE_PLAYLIST \<mapsto> removePlaylist]"

definition ProcessCommand :: handler where
  "ProcessCommand cp command =
     (if length command = 0 then Inr (cp, Some EmptyCommand)
      else
        let baseCommand = command ! 0
        in case commandHandlers baseCommand of
             None \<Rightarrow> Inr (cp, Some (UnknownCommand baseCommand))
           | Some commandHandler \<Rightarrow>
               (case commandHandler cp command of
                  Inl p \<Rightarrow> Inl p
                | Inr (cp', Some err) \<Rightarrow> Inr (cp', Some (CommandFailed command err))
                | Inr (cp', None) \<Rightarrow> Inr (cp', None)))"

text \<open>The loop of \<^verbatim>\<open>ProcessAll\<close>; a panic of a command ends the run.\<close>

fun processLoop :: "CommandProcessor \<Rightarrow> string list list \<Rightarrow> panic + CommandProcessor" where
  "processLoop cp [] = Inr cp"
| "processLoop cp (command # rest) =
     (case ProcessCommand cp command of
        Inl p \<Rightarrow> Inl p
      | Inr (cp', Some err) \<Rightarrow> processLoop (cp'\<lparr>errors := errors cp' @ [err]\<rparr>) rest
      | Inr (cp', None) \<Rightarrow> processLoop cp' rest)"

definition ProcessAll :: "CommandProcessor \<Rightarrow> panic + (CommandProcessor \<times> error option)" where
  "ProcessAll cp =
     (case processLoop (cp\<lparr>errors := []\<rparr>) (Commands cp) of
        Inl p \<Rightarrow> Inl p
      | Inr cp' \<Rightarrow>
          Inr (cp', if length (errors cp') \<noteq> 0 then Some ErrorsEncountered else None))"

definition Errors :: "CommandProcessor \<Rightarrow> error list" where
  "Errors cp = errors cp"

subsection \<open>Properties of a store\<close>

text \<open>
  The playlist table agrees with the playlist collection: every playlist is found at its
  own position, and every entry of the table points at a playlist with that id.
\<close>

definition indexConsistent :: "DataStore \<Rightarrow> bool" where
  "indexConsistent ds \<longleftrightarrow>
     (\<forall>i<length (Playlists ds). playlistMap ds (Playlist.Id (Playlists ds ! i)) = Some i) \<and>
     (\<forall>k i. playlistMap ds k = Some i \<longrightarrow>
        i < length (Playlists ds) \<and> Playlist.Id (Playlists ds ! i) = k)"

text \<open>
  The strings \<^verbatim>\<open>strconv.Atoi\<close> accepts, in words: an optional sign, then at least
  one decimal digit and nothing else, the value between \<open>- 2 ^ 63\<close> and \<open>2 ^ 63 - 1\<close>.
\<close>

definition isDigit :: "char \<Rightarrow> bool" where
  "isDigit c \<longleftrightarrow> (48::nat) \<le> of_char c \<and> of_char c \<le> (57::nat)"

abbreviation decimalStep :: "nat \<Rightarrow> char \<Rightarrow> nat" where
  "decimalStep \<equiv> (\<lambda>n c. n * 10 + (of_char c - 48))"

definition decimalValue :: "string \<Rightarrow> nat" where
  "decimalValue cs = foldl decimalStep 0 cs"

definition intLiteral :: "string \<Rightarrow> bool" where
  "intLiteral s \<longleftrightarrow>
     (case s of
        [] \<Rightarrow> False
      | c # cs \<Rightarrow>
          if c = CHR ''-'' then cs \<noteq> [] \<and> list_all isDigit cs \<and> decimalValue cs \<le> 2 ^ 63
          else if c = CHR ''+'' then cs \<noteq> [] \<and> list_all isDigit cs \<and> decimalValue cs < 2 ^ 63
          else list_all isDigit s \<and> decimalValue s < 2 ^ 63)"

text \<open>The number a playlist id stands for (0 for a string that is no number).\<close>

definition numericId :: "string \<Rightarrow> int" where
  "numericId s = (case Atoi s of Inl _ \<Rightarrow> 0 | Inr k \<Rightarrow> sint k)"

definition maxInt :: go_int where
  "maxInt = 9223372036854775807"

text \<open>
  The claim about non-negative ids, in its words: the strings that are a valid
  non-negative base-10 integer.
\<close>

definition nonNegativeLiteral :: "string \<Rightarrow> bool" where
  "nonNegativeLiteral s \<longleftrightarrow> s \<noteq> [] \<and> list_all isDigit s \<and> decimalValue s < 2 ^ 63"

text \<open>
  The largest number among the playlist ids and 0, the value the loop of
  \<^verbatim>\<open>buildLookupTables\<close> starts from; and the counter the specification promises
  after a load: 1 plus the largest id, or 1 with no playlist.
\<close>

definition largestId :: "Playlist list \<Rightarrow> int" where
  "largestId ps = Max (insert 0 (set (map (\<lambda>p. numericId (Playlist.Id p)) ps)))"

definition claimedNextId :: "Playlist list \<Rightarrow> int" where
  "claimedNextId ps =
     (if ps = [] then 1 else 1 + Max (set (map (\<lambda>p. numericId (Playlist.Id p)) ps)))"

text \<open>
  Two readings of "the table resolves every entity of the collection". In the first the
  id of each entity leads to the last position that holds an entity with that id; in the
  second it leads to a position that holds that very entity.
\<close>

definition resolvesToLast :: "('a \<Rightarrow> string) \<Rightarrow> 'a list \<Rightarrow> (string \<rightharpoonup> nat) \<Rightarrow> bool" where
  "resolvesToLast ident xs m \<longleftrightarrow>
     (\<forall>x\<in>set xs. \<exists>j<length xs. m (ident x) = Some j \<and> ident (xs ! j) = ident x \<and>
        (\<forall>j'. j < j' \<and> j' < length xs \<longrightarrow> ident (xs ! j') \<noteq> ident x))"

definition resolvesToEntity :: "('a \<Rightarrow> string) \<Rightarrow> 'a list \<Rightarrow> (string \<rightharpoonup> nat) \<Rightarrow> bool" where
  "resolvesToEntity ident xs m \<longleftrightarrow>
     (\<forall>x\<in>set xs. \<exists>j<length xs. m (ident x) = Some j \<and> xs ! j = x)"

text \<open>
  Every playlist id is a number below the counter; and the stores a run of the program
  reaches while the counter has not wrapped around: built from a snapshot whose ids (and
  0) stay below the largest \<^verbatim>\<open>int\<close>, then changed by the three operations, where no
  playlist was added with the counter at the largest \<^verbatim>\<open>int\<close>. An operation that
  panics reaches no store.
\<close>

definition idsBelowCounter :: "DataStore \<Rightarrow> bool" where
  "idsBelowCounter ds \<longleftrightarrow>
     (\<forall>p\<in>set (Playlists ds). \<exists>k. Atoi (Playlist.Id p) = Inr k \<and> k <s nextPlaylistId ds)"

inductive reachable :: "DataStore \<Rightarrow> bool" where
  load: "NewDataStore snap = (ds, None) \<Longrightarrow> largestId (playlists snap) < 2 ^ 63 - 1 \<Longrightarrow>
           reachable ds"
| add: "reachable ds \<Longrightarrow> nextPlaylistId ds \<noteq> maxInt \<Longrightarrow>
          AddNewPlaylist ds userId songIds = (ds', Inr newId) \<Longrightarrow> reachable ds'"
| song: "reachable ds \<Longrightarrow> AddSongToPlaylist ds playlistId songId = Inr (ds', err) \<Longrightarrow>
           reachable ds'"
| remove: "reachable ds \<Longrightarrow> RemovePlaylist ds ident = Inr (ds', removed, err) \<Longrightarrow>
             reachable ds'"

subsection \<open>Example data\<close>

text \<open>
  A snapshot of the shape the tests of the store load: two users, three songs, three
  playlists with the ids 1, 2 and 3, the first playlist with two songs. \<open>exampleStore\<close>
  is the store that is built from it.
\<close>

definition exampleSnapshot :: Snapshot where
  "exampleSnapshot =
     \<lparr>users = [\<lparr>User.Id = ''1'', Name = ''Albin Jaye''\<rparr>,
               \<lparr>User.Id = ''2'', Name = ''Dipika Crescentia''\<rparr>],
      playlists = [\<lparr>Playlist.Id = ''1'', UserId = ''2'', SongIds = [''1'', ''3'']\<rparr>,
                   \<lparr>Playlist.Id = ''2'', UserId = ''1'', SongIds = [''2'']\<rparr>,
                   \<lparr>Playlist.Id = ''3'', UserId = ''2'', SongIds = [''3'', ''1'', ''2'']\<rparr>],
      songs = [\<lparr>Song.Id = ''1'', Artist = ''Camila Cabello'', Title = ''Never Be the Same''\<rparr>,
               \<lparr>Song.Id = ''2'', Artist = ''Zedd'', Title = ''The Middle''\<rparr>,
               \<lparr>Song.Id = ''3'', Artist = ''The Weeknd'', Title = ''Pray For Me''\<rparr>]\<rparr>"

definition exampleStore :: DataStore where
  "exampleStore =
     \<lparr>Users = users exampleSnapshot, Playlists = playlists exampleSnapshot,
      Songs = songs exampleSnapshot,
      userMap = [''1'' \<mapsto> 0, ''2'' \<mapsto> 1],
      playlistMap = [''1'' \<mapsto> 0, ''2'' \<mapsto> 1, ''3'' \<mapsto> 2],
      songMap = [''1'' \<mapsto> 0, ''2'' \<mapsto> 1, ''3'' \<mapsto> 2],
      nextPlaylistId = 4\<rparr>"

text \<open>
  A memory with the record \<^verbatim>\<open>add-playlist,1,1,2\<close> in it, the slice
  \<^verbatim>\<open>command[2:]\<close> of that record, and a processor on the example store.
\<close>

definition exampleMemory :: memory where
  "exampleMemory = [[''add-playlist'', ''1'', ''1'', ''2'']]"

definition exampleSlice :: slice where
  "exampleSlice = \<lparr>array = 0, offset = 2, len = 2\<rparr>"

definition exampleProcessor :: CommandProcessor where
  "exampleProcessor = NewCommandProcessor [] exampleStore"

text \<open>
  Variants of the example snapshot: a playlist with a negative id; the two playlists with
  the largest and the smallest id an \<^verbatim>\<open>int\<close> holds; a playlist whose id is no number;
  two users with the same id.
\<close>

definition negativeSnapshot :: Snapshot where
  "negativeSnapshot = exampleSnapshot\<lparr>playlists :=
     [\<lparr>Playlist.Id = ''-5'', UserId = ''2'', SongIds = [''1'', ''3'']\<rparr>]\<rparr>"

definition largestSnapshot :: Snapshot where
  "largestSnapshot = exampleSnapshot\<lparr>playlists :=
     [\<lparr>Playlist.Id = ''9223372036854775807'', UserId = ''2'', SongIds = [''1'', ''3'']\<rparr>,
      \<lparr>Playlist.Id = ''-9223372036854775808'', UserId = ''1'', SongIds = [''2'']\<rparr>]\<rparr>"

definition malformedSnapshot :: Snapshot where
  "malformedSnapshot = exampleSnapshot\<lparr>playlists :=
     [\<lparr>Playlist.Id = ''1'', UserId = ''2'', SongIds = [''1'', ''3'']\<rparr>,
      \<lparr>Playlist.Id = ''x2'', UserId = ''1'', SongIds = [''2'']\<rparr>]\<rparr>"

definition duplicateSnapshot :: Snapshot where
  "duplicateSnapshot = exampleSnapshot\<lparr>users :=
     [\<lparr>User.Id = ''1'', Name = ''Albin Jaye''\<rparr>,
      \<lparr>User.Id = ''1'', Name = ''Dipika Crescentia''\<rparr>]\<rparr>"

text \<open>
  Two command files for the example store: one that removes the last playlist twice, and
  one with a failing command between two that succeed.
\<close>

definition panickingCommands :: "string list list" where
  "panickingCommands =
     [[''rm-playlist'', ''3''], [''rm-playlist'', ''3''], [''add-playlist'', ''1'', ''1'']]"

definition mixedCommands :: "string list list" where
  "mixedCommands =
     [[''add-song-to-playlist'', ''1'', ''2''], [''add-song-to-playlist'', ''7'', ''2''],
      [''rm-playlist'', ''2'']]"

section \<open>Verification\<close>

subsection \<open>Evaluation\<close>

lemmas atoi_defs = Atoi_def ParseInt_def ParseUint_def digitVal_def maxUint64_def cutoff_def

lemmas itoa_defs = Itoa_def formatBits.simps digits_def

lemma Atoi_small: "Atoi ''1'' = Inr 1" "Atoi ''2'' = Inr 2" "Atoi ''3'' = Inr 3"
  by (simp_all add: atoi_defs)

lemma NewDataStore_example: "NewDataStore exampleSnapshot = (exampleStore, None)"
  by (simp add: NewDataStore_def buildLookupTables_def unmarshal_def exampleSnapshot_def
      exampleStore_def Atoi_small word_sless_alt numeral_2_eq_2)

subsection \<open>Atoi and Itoa\<close>

lemma digitVal_Some: "digitVal c = Some d \<longleftrightarrow> isDigit c \<and> d = of_char c - 48"
  by (auto simp: digitVal_def isDigit_def)

lemma digitVal_None: "digitVal c = None \<longleftrightarrow> \<not> isDigit c"
  by (auto simp: digitVal_def isDigit_def)


lemma foldl_decimalStep_ge: "n \<le> foldl decimalStep n cs"
proof (induction cs arbitrary: n)
  case Nil
  show ?case by simp
next
  case (Cons c cs)
  have "n \<le> n * 10 + (of_char c - 48)" by simp
  also have "\<dots> \<le> foldl decimalStep (n * 10 + (of_char c - 48)) cs" by (rule Cons.IH)
  finally show ?case by simp
qed

lemma parseUintLoop_Inr:
  "parseUintLoop n cs = Inr v \<longleftrightarrow>
     list_all isDigit cs \<and> v = foldl decimalStep n cs \<and> (cs \<noteq> [] \<longrightarrow> v \<le> maxUint64)"
proof (induction cs arbitrary: n)
  case Nil
  show ?case by auto
next
  case (Cons c cs)
  show ?case
  proof (cases "digitVal c")
    case None
    then have "\<not> isDigit c" by (simp add: digitVal_None)
    with None show ?thesis by simp
  next
    case (Some d)
    then have d: "isDigit c" "d = of_char c - 48"
      by (simp_all add: digitVal_Some)
    have ge: "n * 10 + d \<le> foldl decimalStep (n * 10 + d) cs"
      by (rule foldl_decimalStep_ge)
    show ?thesis
    proof (cases "maxUint64 < n * 10 + d")
      case True
      with ge Some d show ?thesis by auto
    next
      case False
      with Some have "parseUintLoop n (c # cs) = parseUintLoop (n * 10 + d) cs"
        by simp
      with Cons.IH [of "n * 10 + d"] d False show ?thesis
        by (cases "cs = []") auto
    qed
  qed
qed

lemma ParseUint_Inr:
  "ParseUint s = Inr v \<longleftrightarrow> s \<noteq> [] \<and> list_all isDigit s \<and> v = decimalValue s \<and> v \<le> maxUint64"
  by (auto simp: ParseUint_def parseUintLoop_Inr decimalValue_def)

lemma isDigit_not_sign: "isDigit c \<Longrightarrow> c \<noteq> CHR ''-'' \<and> c \<noteq> CHR ''+''"
  by (auto simp: isDigit_def)

lemma cutoff_le_max: "cutoff \<le> maxUint64"
  by (simp add: cutoff_def maxUint64_def)

lemma Atoi_Inr_neg:
  "Atoi (CHR ''-'' # cs) = Inr k \<longleftrightarrow>
     cs \<noteq> [] \<and> list_all isDigit cs \<and> decimalValue cs \<le> 2 ^ 63 \<and> k = - of_nat (decimalValue cs)"
proof (cases "ParseUint cs")
  case (Inl e)
  then have "\<not> (cs \<noteq> [] \<and> list_all isDigit cs \<and> decimalValue cs \<le> maxUint64)"
    using ParseUint_Inr [of cs "decimalValue cs"] by auto
  with Inl show ?thesis
    using cutoff_le_max by (auto simp: Atoi_def ParseInt_def cutoff_def)
next
  case (Inr un)
  then have "cs \<noteq> [] \<and> list_all isDigit cs \<and> un = decimalValue cs"
    by (simp add: ParseUint_Inr)
  with Inr show ?thesis
    by (auto simp: Atoi_def ParseInt_def cutoff_def)
qed

lemma Atoi_Inr_plus:
  "Atoi (CHR ''+'' # cs) = Inr k \<longleftrightarrow>
     cs \<noteq> [] \<and> list_all isDigit cs \<and> decimalValue cs < 2 ^ 63 \<and> k = of_nat (decimalValue cs)"
proof (cases "ParseUint cs")
  case (Inl e)
  then have "\<not> (cs \<noteq> [] \<and> list_all isDigit cs \<and> decimalValue cs \<le> maxUint64)"
    using ParseUint_Inr [of cs "decimalValue cs"] by auto
  with Inl show ?thesis
    using cutoff_le_max by (auto simp: Atoi_def ParseInt_def cutoff_def)
next
  case (Inr un)
  then have "cs \<noteq> [] \<and> list_all isDigit cs \<and> un = decimalValue cs"
    by (simp add: ParseUint_Inr)
  with Inr show ?thesis
    by (auto simp: Atoi_def ParseInt_def cutoff_def)
qed

lemma Atoi_Inr_unsigned:
  assumes "c \<noteq> CHR ''-''" and "c \<noteq> CHR ''+''"
  shows "Atoi (c # cs) = Inr k \<longleftrightarrow>
     list_all isDigit (c # cs) \<and> decimalValue (c # cs) < 2 ^ 63 \<and> k = of_nat (decimalValue (c # cs))"
proof (cases "ParseUint (c # cs)")
  case (Inl e)
  then have "\<not> (list_all isDigit (c # cs) \<and> decimalValue (c # cs) \<le> maxUint64)"
    using ParseUint_Inr [of "c # cs" "decimalValue (c # cs)"] by auto
  with Inl assms show ?thesis
    using cutoff_le_max by (auto simp: Atoi_def ParseInt_def cutoff_def)
next
  case (Inr un)
  then have "list_all isDigit (c # cs) \<and> un = decimalValue (c # cs)"
    by (simp add: ParseUint_Inr)
  with Inr assms show ?thesis
    by (auto simp: Atoi_def ParseInt_def cutoff_def)
qed

lemma Atoi_succeeds_iff: "(\<exists>k. Atoi s = Inr k) \<longleftrightarrow> intLiteral s"
proof (cases s)
  case Nil
  then show ?thesis by (simp add: Atoi_def ParseInt_def intLiteral_def)
next
  case (Cons c cs)
  consider "c = CHR ''-''" | "c = CHR ''+''" | "c \<noteq> CHR ''-''" "c \<noteq> CHR ''+''"
    by blast
  then show ?thesis
  proof cases
    case 1
    with Cons show ?thesis by (simp add: Atoi_Inr_neg intLiteral_def)
  next
    case 2
    with Cons show ?thesis by (simp add: Atoi_Inr_plus intLiteral_def)
  next
    case 3
    with Cons show ?thesis by (simp add: Atoi_Inr_unsigned intLiteral_def)
  qed
qed

lemma digits_nth:
  assumes "d < 10"
  shows "isDigit (digits ! d) \<and> of_char (digits ! d) - 48 = d"
proof -
  from assms have "d = 0 \<or> d = 1 \<or> d = 2 \<or> d = 3 \<or> d = 4 \<or> d = 5 \<or> d = 6
      \<or> d = 7 \<or> d = 8 \<or> d = 9"
    by arith
  then show ?thesis
    by (elim disjE) (simp_all add: digits_def isDigit_def)
qed

lemma formatBits_nonempty: "formatBits u \<noteq> []"
  by (subst formatBits.simps) simp

lemma formatBits_digits: "list_all isDigit (formatBits u)"
proof (induction u rule: formatBits.induct)
  case (1 u)
  show ?case
  proof (cases "10 \<le> u")
    case True
    with 1 have "list_all isDigit (formatBits (u div 10))" by simp
    moreover have "isDigit (digits ! (u mod 10))" by (simp add: digits_nth)
    ultimately show ?thesis
      using True by (subst formatBits.simps) simp
  next
    case False
    then have "isDigit (digits ! u)" by (simp add: digits_nth)
    with False show ?thesis by (subst formatBits.simps) simp
  qed
qed

lemma decimalValue_formatBits: "decimalValue (formatBits u) = u"
proof (induction u rule: formatBits.induct)
  case (1 u)
  show ?case
  proof (cases "10 \<le> u")
    case True
    with 1 have ih: "decimalValue (formatBits (u div 10)) = u div 10" by simp
    have "of_char (digits ! (u mod 10)) - 48 = u mod 10" by (simp add: digits_nth)
    with ih True show ?thesis
      by (subst formatBits.simps) (simp add: decimalValue_def)
  next
    case False
    then have "of_char (digits ! u) - 48 = u" by (simp add: digits_nth)
    with False show ?thesis
      by (subst formatBits.simps) (simp add: decimalValue_def)
  qed
qed

lemma sint_bounds64: "- (2 ^ 63) \<le> sint (w :: go_int)" "sint (w :: go_int) < 2 ^ 63"
  using sint_ge [of w] sint_lt [of w] by simp_all

lemma Atoi_Itoa: "Atoi (Itoa w) = Inr w"
proof (cases "sint w < 0")
  case True
  let ?u = "nat (- sint w)"
  have "?u \<le> 2 ^ 63"
    using sint_bounds64(1) [of w] by simp
  then have "decimalValue (formatBits ?u) \<le> 2 ^ 63"
    by (simp add: decimalValue_formatBits)
  moreover have "- of_nat ?u = w"
    using True by simp
  ultimately have "Atoi (CHR ''-'' # formatBits ?u) = Inr w"
    by (simp add: Atoi_Inr_neg formatBits_nonempty formatBits_digits decimalValue_formatBits)
  with True show ?thesis by (simp add: Itoa_def)
next
  case False
  let ?u = "nat (sint w)"
  obtain c cs where cs: "formatBits ?u = c # cs"
    using formatBits_nonempty [of ?u] by (cases "formatBits ?u") auto
  have "isDigit c"
    using formatBits_digits [of ?u] cs by simp
  then have c: "c \<noteq> CHR ''-''" "c \<noteq> CHR ''+''"
    using isDigit_not_sign by blast+
  have "?u < 2 ^ 63"
    using sint_bounds64(2) [of w] False by simp
  then have "decimalValue (c # cs) < 2 ^ 63"
    using decimalValue_formatBits [of ?u] cs by simp
  moreover have "of_nat (decimalValue (c # cs)) = w"
    using decimalValue_formatBits [of ?u] cs False by simp
  moreover have "list_all isDigit (c # cs)"
    using formatBits_digits [of ?u] cs by simp
  ultimately have "Atoi (c # cs) = Inr w"
    using Atoi_Inr_unsigned [OF c] by blast
  with False cs show ?thesis by (simp add: Itoa_def)
qed

lemma sint_inj: "sint (w :: go_int) = sint v \<Longrightarrow> w = v"
proof -
  assume "sint w = sint v"
  then have "(word_of_int (sint w) :: go_int) = word_of_int (sint v)" by simp
  then show "w = v" by simp
qed

lemma sint_maxInt: "sint maxInt = 2 ^ 63 - 1"
  by (simp add: maxInt_def)

lemma sint_succ:
  assumes "w \<noteq> maxInt"
  shows "sint (w + 1) = sint w + 1"
proof -
  have "sint w \<noteq> sint maxInt"
    using assms sint_inj by blast
  then have "sint w < 2 ^ 63 - 1"
    using sint_bounds64(2) [of w] by (simp add: sint_maxInt)
  moreover have "- (2 ^ 63) \<le> sint w"
    by (rule sint_bounds64)
  ultimately have "signed_take_bit 63 (sint w + 1) = sint w + 1"
    by (intro signed_take_bit_int_eq_self) simp_all
  then show ?thesis
    by (simp add: sint_word_ariths)
qed

subsection \<open>The loops of buildLookupTables\<close>

lemma indexLoop_other:
  "k \<notin> ident ` set xs \<Longrightarrow> indexLoop ident i xs m k = m k"
  by (induction xs arbitrary: i m) auto

lemma indexLoop_last:
  assumes "j < length xs" and "ident (xs ! j) = k"
    and "\<forall>j'. j < j' \<and> j' < length xs \<longrightarrow> ident (xs ! j') \<noteq> k"
  shows "indexLoop ident i xs m k = Some (i + j)"
  using assms
proof (induction xs arbitrary: i j m)
  case Nil
  then show ?case by simp
next
  case (Cons x xs)
  show ?case
  proof (cases j)
    case 0
    have "k \<notin> ident ` set xs"
    proof
      assume "k \<in> ident ` set xs"
      then obtain n where "n < length xs" "ident (xs ! n) = k"
        by (auto simp: in_set_conv_nth)
      with Cons.prems(3) [rule_format, of "Suc n"] 0 show False by simp
    qed
    then have "indexLoop ident (Suc i) xs (m(ident x \<mapsto> i)) k = (m(ident x \<mapsto> i)) k"
      by (rule indexLoop_other)
    with 0 Cons.prems(2) show ?thesis by simp
  next
    case (Suc n)
    have "indexLoop ident (Suc i) xs (m(ident x \<mapsto> i)) k = Some (Suc i + n)"
    proof (rule Cons.IH)
      show "n < length xs" using Cons.prems(1) Suc by simp
      show "ident (xs ! n) = k" using Cons.prems(2) Suc by simp
      show "\<forall>j'. n < j' \<and> j' < length xs \<longrightarrow> ident (xs ! j') \<noteq> k"
      proof (intro allI impI)
        fix j' assume "n < j' \<and> j' < length xs"
        with Cons.prems(3) [rule_format, of "Suc j'"] Suc show "ident (xs ! j') \<noteq> k" by simp
      qed
    qed
    with Suc show ?thesis by simp
  qed
qed

lemma last_occurrence:
  assumes "x \<in> set xs"
  shows "\<exists>j<length xs. ident (xs ! j) = ident x \<and>
           (\<forall>j'. j < j' \<and> j' < length xs \<longrightarrow> ident (xs ! j') \<noteq> ident x)"
proof -
  let ?P = "\<lambda>j. j < length xs \<and> ident (xs ! j) = ident x"
  from assms obtain n where n: "?P n"
    by (auto simp: in_set_conv_nth)
  have fin: "finite {j. ?P j}" by simp
  have ne: "{j. ?P j} \<noteq> {}" using n by blast
  define j where "j = Max {j. ?P j}"
  have "j \<in> {j. ?P j}" unfolding j_def using fin ne by (rule Max_in)
  then have j: "?P j" by simp
  have "\<forall>j'. j < j' \<and> j' < length xs \<longrightarrow> ident (xs ! j') \<noteq> ident x"
  proof (intro allI impI notI)
    fix j' assume a: "j < j' \<and> j' < length xs" and b: "ident (xs ! j') = ident x"
    then have "j' \<in> {j. ?P j}" by simp
    then have "j' \<le> j" unfolding j_def using fin by (simp del: mem_Collect_eq)
    with a show False by simp
  qed
  with j show ?thesis by blast
qed

lemma indexLoop_resolvesToLast: "resolvesToLast ident xs (indexLoop ident 0 xs m)"
  unfolding resolvesToLast_def
proof
  fix x assume "x \<in> set xs"
  then obtain j where j: "j < length xs" "ident (xs ! j) = ident x"
      "\<forall>j'. j < j' \<and> j' < length xs \<longrightarrow> ident (xs ! j') \<noteq> ident x"
    using last_occurrence [of x xs ident] by blast
  then have "indexLoop ident 0 xs m (ident x) = Some (0 + j)"
    by (rule indexLoop_last)
  with j show "\<exists>j<length xs. indexLoop ident 0 xs m (ident x) = Some j \<and>
      ident (xs ! j) = ident x \<and> (\<forall>j'. j < j' \<and> j' < length xs \<longrightarrow> ident (xs ! j') \<noteq> ident x)"
    by auto
qed

lemma resolvesToLast_distinct:
  assumes "resolvesToLast ident xs m" and "distinct (map ident xs)"
  shows "resolvesToEntity ident xs m"
  unfolding resolvesToEntity_def
proof
  fix x assume x: "x \<in> set xs"
  with assms(1) obtain j where j: "j < length xs" "m (ident x) = Some j" "ident (xs ! j) = ident x"
    unfolding resolvesToLast_def by blast
  from x obtain n where n: "n < length xs" "xs ! n = x"
    by (auto simp: in_set_conv_nth)
  with j have "map ident xs ! j = map ident xs ! n" by simp
  moreover have "j < length (map ident xs)" "n < length (map ident xs)"
    using j(1) n(1) by simp_all
  ultimately have "j = n"
    using assms(2) nth_eq_iff_index_eq by blast
  with j n show "\<exists>j<length xs. m (ident x) = Some j \<and> xs ! j = x" by blast
qed

lemma playlistLoop_error_iff:
  "snd (snd (playlistLoop i ps m mx)) = None \<longleftrightarrow> (\<forall>p\<in>set ps. \<exists>k. Atoi (Playlist.Id p) = Inr k)"
  by (induction ps arbitrary: i m mx) (auto simp: Let_def split: sum.splits)

lemma playlistLoop_error:
  "snd (snd (playlistLoop i ps m mx)) = Some e \<Longrightarrow>
     \<exists>p\<in>set ps. \<exists>k. Atoi (Playlist.Id p) = Inl k \<and> e = MalformedIdentifier (Playlist.Id p) k"
  by (induction ps arbitrary: i m mx) (auto simp: Let_def split: sum.splits)

lemma playlistLoop_map:
  "snd (snd (playlistLoop i ps m mx)) = None \<Longrightarrow>
     fst (playlistLoop i ps m mx) = indexLoop Playlist.Id i ps m"
  by (induction ps arbitrary: i m mx) (auto simp: Let_def split: sum.splits)

lemma numericId_Inr: "Atoi s = Inr k \<Longrightarrow> numericId s = sint k"
  by (simp add: numericId_def)

lemma playlistLoop_max:
  "snd (snd (playlistLoop i ps m mx)) = None \<Longrightarrow>
     sint (fst (snd (playlistLoop i ps m mx))) =
       Max (insert (sint mx) (set (map (\<lambda>p. numericId (Playlist.Id p)) ps)))"
proof (induction ps arbitrary: i m mx)
  case Nil
  show ?case by simp
next
  case (Cons p ps)
  let ?S = "set (map (\<lambda>p. numericId (Playlist.Id p)) ps)"
  from Cons.prems obtain k where k: "Atoi (Playlist.Id p) = Inr k"
    by (auto simp: Let_def split: sum.splits)
  define mx' where "mx' = (if mx <s k then k else mx)"
  have s: "sint mx' = max (sint mx) (sint k)"
    by (simp add: mx'_def word_sless_alt max_def)
  from k have eq: "playlistLoop i (p # ps) m mx = playlistLoop (Suc i) ps (m(Playlist.Id p \<mapsto> i)) mx'"
    by (simp add: mx'_def)
  with Cons.prems have "snd (snd (playlistLoop (Suc i) ps (m(Playlist.Id p \<mapsto> i)) mx')) = None"
    by simp
  then have "sint (fst (snd (playlistLoop (Suc i) ps (m(Playlist.Id p \<mapsto> i)) mx'))) =
      Max (insert (sint mx') ?S)"
    by (rule Cons.IH)
  also have "\<dots> = Max (insert (sint mx) (insert (sint k) ?S))"
  proof (cases "?S = {}")
    case True
    then show ?thesis by (simp add: s)
  next
    case False
    then show ?thesis by (simp add: s max.assoc)
  qed
  finally show ?case
    using eq k by (simp add: numericId_Inr)
qed

lemma NewDataStore_error:
  "snd (NewDataStore snap) = snd (snd (playlistLoop 0 (playlists snap) Map.empty 0))"
  by (simp add: NewDataStore_def buildLookupTables_def unmarshal_def Let_def
      split: prod.splits option.splits)

lemma NewDataStore_success:
  assumes "NewDataStore snap = (ds, None)"
  shows "ds = \<lparr>Users = users snap, Playlists = playlists snap, Songs = songs snap,
               userMap = indexLoop User.Id 0 (users snap) Map.empty,
               playlistMap = indexLoop Playlist.Id 0 (playlists snap) Map.empty,
               songMap = indexLoop Song.Id 0 (songs snap) Map.empty,
               nextPlaylistId = fst (snd (playlistLoop 0 (playlists snap) Map.empty 0)) + 1\<rparr>"
proof -
  from assms have n: "snd (snd (playlistLoop 0 (playlists snap) Map.empty 0)) = None"
    using NewDataStore_error [of snap] by simp
  then have "fst (playlistLoop 0 (playlists snap) Map.empty 0)
      = indexLoop Playlist.Id 0 (playlists snap) Map.empty"
    by (rule playlistLoop_map)
  with assms n show ?thesis
    by (auto simp: NewDataStore_def buildLookupTables_def unmarshal_def Let_def
        split: prod.splits option.splits)
qed

lemma Atoi_negative: "Atoi ''-5'' = Inr (- 5)"
  by (simp add: atoi_defs)

lemma Atoi_malformed: "Atoi ''x2'' = Inl ErrSyntax"
  by (simp add: atoi_defs)

lemma Atoi_largest: "Atoi ''9223372036854775807'' = Inr 9223372036854775807"
  by (simp add: atoi_defs)

lemma Atoi_smallest: "Atoi ''-9223372036854775808'' = Inr (- 9223372036854775808)"
  by (simp add: atoi_defs)

lemma NewDataStore_eval:
  "NewDataStore snap =
     (case playlistLoop 0 (playlists snap) Map.empty 0 of
        (m, mx, Some err) \<Rightarrow>
          (\<lparr>Users = users snap, Playlists = playlists snap, Songs = songs snap,
            userMap = indexLoop User.Id 0 (users snap) Map.empty, playlistMap = m,
            songMap = indexLoop Song.Id 0 (songs snap) Map.empty, nextPlaylistId = 0\<rparr>,
           Some err)
      | (m, mx, None) \<Rightarrow>
          (\<lparr>Users = users snap, Playlists = playlists snap, Songs = songs snap,
            userMap = indexLoop User.Id 0 (users snap) Map.empty, playlistMap = m,
            songMap = indexLoop Song.Id 0 (songs snap) Map.empty, nextPlaylistId = mx + 1\<rparr>,
           None))"
  by (simp add: NewDataStore_def buildLookupTables_def unmarshal_def Let_def
      split: prod.splits option.splits)

lemma example_userMap: "indexLoop User.Id 0 (users exampleSnapshot) Map.empty = userMap exampleStore"
  by (simp add: exampleSnapshot_def exampleStore_def)

lemma example_songMap: "indexLoop Song.Id 0 (songs exampleSnapshot) Map.empty = songMap exampleStore"
  by (simp add: exampleSnapshot_def exampleStore_def numeral_2_eq_2)

lemma playlistLoop_negative:
  "playlistLoop 0 (playlists negativeSnapshot) Map.empty 0 = ([''-5'' \<mapsto> 0], 0, None)"
  by (simp add: negativeSnapshot_def Atoi_negative word_sless_alt)

lemma playlistLoop_largest:
  "playlistLoop 0 (playlists largestSnapshot) Map.empty 0 =
     ([''9223372036854775807'' \<mapsto> 0, ''-9223372036854775808'' \<mapsto> 1],
      9223372036854775807, None)"
  by (simp add: largestSnapshot_def Atoi_largest Atoi_smallest word_sless_alt)

lemma NewDataStore_negative:
  "NewDataStore negativeSnapshot =
     (exampleStore\<lparr>Playlists := playlists negativeSnapshot, playlistMap := [''-5'' \<mapsto> 0],
        nextPlaylistId := 1\<rparr>, None)"
proof -
  have "users negativeSnapshot = users exampleSnapshot"
    "songs negativeSnapshot = songs exampleSnapshot"
    by (simp_all add: negativeSnapshot_def)
  then show ?thesis
    by (simp add: NewDataStore_eval playlistLoop_negative example_userMap example_songMap)
      (simp add: exampleStore_def)
qed

lemma NewDataStore_largest:
  "NewDataStore largestSnapshot =
     (exampleStore\<lparr>Playlists := playlists largestSnapshot,
        playlistMap := [''9223372036854775807'' \<mapsto> 0, ''-9223372036854775808'' \<mapsto> 1],
        nextPlaylistId := - 9223372036854775808\<rparr>, None)"
proof -
  have "users largestSnapshot = users exampleSnapshot"
    "songs largestSnapshot = songs exampleSnapshot"
    by (simp_all add: largestSnapshot_def)
  then show ?thesis
    by (simp add: NewDataStore_eval playlistLoop_largest example_userMap example_songMap)
      (simp add: exampleStore_def)
qed

subsection \<open>RemovePlaylist\<close>

lemma exampleStore_consistent: "indexConsistent exampleStore"
proof -
  have "\<forall>i<3. playlistMap exampleStore (Playlist.Id (Playlists exampleStore ! i)) = Some i"
    by (simp add: exampleStore_def exampleSnapshot_def All_less_Suc numeral_3_eq_3)
  moreover have "\<forall>k i. playlistMap exampleStore k = Some i \<longrightarrow>
        i < 3 \<and> Playlist.Id (Playlists exampleStore ! i) = k"
    by (auto simp: exampleStore_def exampleSnapshot_def split: if_splits)
  moreover have "length (Playlists exampleStore) = 3"
    by (simp add: exampleStore_def exampleSnapshot_def)
  ultimately show ?thesis
    by (simp add: indexConsistent_def)
qed

lemma RemovePlaylist_absent:
  "playlistMap ds ident = None \<Longrightarrow> RemovePlaylist ds ident = Inr (ds, False, None)"
  by (simp add: RemovePlaylist_def)

lemma RemovePlaylist_not_last:
  assumes inv: "indexConsistent ds"
    and t: "playlistMap ds ident = Some t"
    and nl: "Suc t \<noteq> length (Playlists ds)"
  shows "\<exists>ds'. RemovePlaylist ds ident = Inr (ds', True, None) \<and>
           Suc (length (Playlists ds')) = length (Playlists ds) \<and>
           indexConsistent ds' \<and>
           RemovePlaylist ds' ident = Inr (ds', False, None)"
proof -
  let ?ps = "Playlists ds" and ?m = "playlistMap ds"
  let ?n = "length ?ps"
  let ?last = "?ps ! (?n - 1)"
  from inv have fwd: "\<And>i. i < ?n \<Longrightarrow> ?m (Playlist.Id (?ps ! i)) = Some i"
    and bwd: "\<And>k i. ?m k = Some i \<Longrightarrow> i < ?n \<and> Playlist.Id (?ps ! i) = k"
    by (auto simp: indexConsistent_def)
  from bwd [OF t] have tn: "t < ?n" and tid: "Playlist.Id (?ps ! t) = ident"
    by simp_all
  with nl have tl: "t < ?n - 1" by simp
  have lastmap: "?m (Playlist.Id ?last) = Some (?n - 1)"
    using fwd [of "?n - 1"] tn by simp
  with t tl have lid: "Playlist.Id ?last \<noteq> ident"
    by auto
  define ds' where "ds' = ds\<lparr>Playlists := take (?n - 1) (?ps[t := ?last]),
      playlistMap := (?m(ident := None))(Playlist.Id ?last \<mapsto> t)\<rparr>"
  from tn have ne: "Playlists ds \<noteq> []" by auto
  have r: "RemovePlaylist ds ident = Inr (ds', True, None)"
    using t tn ne by (simp add: RemovePlaylist_def Let_def ds'_def)
  have len: "length (Playlists ds') = ?n - 1"
    by (simp add: ds'_def)
  have nth: "Playlists ds' ! i = (if i = t then ?last else ?ps ! i)" if "i < ?n - 1" for i
    using that by (simp add: ds'_def nth_list_update)
  have m': "playlistMap ds' k =
      (if k = Playlist.Id ?last then Some t else if k = ident then None else ?m k)" for k
    by (simp add: ds'_def)
  have c1: "playlistMap ds' (Playlist.Id (Playlists ds' ! i)) = Some i" if i: "i < ?n - 1" for i
  proof (cases "i = t")
    case True
    with i show ?thesis by (simp add: nth m')
  next
    case False
    from i have mi: "?m (Playlist.Id (?ps ! i)) = Some i"
      using fwd [of i] by simp
    with lastmap i have "Playlist.Id (?ps ! i) \<noteq> Playlist.Id ?last"
      by auto
    moreover from mi t False have "Playlist.Id (?ps ! i) \<noteq> ident"
      by auto
    ultimately show ?thesis
      using i False mi by (simp add: nth m')
  qed
  have c2: "i < ?n - 1 \<and> Playlist.Id (Playlists ds' ! i) = k" if k: "playlistMap ds' k = Some i" for k i
  proof (cases "k = Playlist.Id ?last")
    case True
    with k have "i = t" by (simp add: m')
    with True tl show ?thesis by (simp add: nth)
  next
    case False
    with k have ki: "k \<noteq> ident" "?m k = Some i"
      by (auto simp: m' split: if_splits)
    then have i: "i < ?n" "Playlist.Id (?ps ! i) = k"
      using bwd [of k i] by simp_all
    with False have "i \<noteq> ?n - 1" by auto
    with i have il: "i < ?n - 1" by simp
    from i ki tid have "i \<noteq> t" by auto
    with il i show ?thesis by (simp add: nth)
  qed
  have cons: "indexConsistent ds'"
    unfolding indexConsistent_def len using c1 c2 by blast
  have "playlistMap ds' ident = None"
    using lid by (simp add: m')
  then have again: "RemovePlaylist ds' ident = Inr (ds', False, None)"
    by (rule RemovePlaylist_absent)
  from r len tn cons again show ?thesis
    by auto
qed

lemma RemovePlaylist_last:
  assumes inv: "indexConsistent ds"
    and t: "playlistMap ds ident = Some t"
    and l: "Suc t = length (Playlists ds)"
  shows "\<exists>ds'. RemovePlaylist ds ident = Inr (ds', True, None) \<and>
           length (Playlists ds') = t \<and>
           playlistMap ds' ident = Some t \<and>
           \<not> indexConsistent ds' \<and>
           (\<exists>p. RemovePlaylist ds' ident = Inl p)"
proof -
  let ?ps = "Playlists ds"
  from inv t have tid: "Playlist.Id (?ps ! t) = ident"
    by (auto simp: indexConsistent_def)
  from l have lt: "length ?ps - 1 = t" "?ps \<noteq> []" "t < length ?ps"
    by auto
  define ds' where "ds' = ds\<lparr>Playlists := take t (?ps[t := ?ps ! t]),
      playlistMap := ((playlistMap ds)(ident := None))(ident \<mapsto> t)\<rparr>"
  have r: "RemovePlaylist ds ident = Inr (ds', True, None)"
    using t lt tid by (simp add: RemovePlaylist_def Let_def ds'_def)
  have len: "length (Playlists ds') = t"
    using lt by (simp add: ds'_def)
  have m: "playlistMap ds' ident = Some t"
    by (simp add: ds'_def)
  from len m have nc: "\<not> indexConsistent ds'"
    by (auto simp: indexConsistent_def)
  have "\<exists>p. RemovePlaylist ds' ident = Inl p"
    using len m by (simp add: RemovePlaylist_def Let_def)
  with r len m nc show ?thesis by blast
qed

text \<open>
  C1 on the code. The example store has a consistent playlist table and \<^verbatim>\<open>3\<close> is the
  id of its last playlist. Removing it returns "removed" and leaves two playlists, but
  the table still holds the id, at position 2: the entry that \<^verbatim>\<open>delete\<close> took out is
  written back by the assignment for the moved playlist, which here is the removed one.
  The second removal of the id finds the entry and panics on the index (the lemma
  \<open>RemovePlaylist_last\<close> has this for the last playlist of any consistent store, and
  \<open>RemovePlaylist_not_last\<close> has the claim for every other playlist).
\<close>

theorem RemovePlaylist_last_playlist:
  "\<exists>ds'. RemovePlaylist exampleStore ''3'' = Inr (ds', True, None) \<and>
     length (Playlists ds') = 2 \<and>
     playlistMap ds' ''3'' = Some 2 \<and>
     RemovePlaylist ds' ''3'' = Inl (IndexOutOfRange 2 2)"
proof -
  define ds' where "ds' = exampleStore\<lparr>Playlists := take 2 (playlists exampleSnapshot),
      playlistMap := [''1'' \<mapsto> 0, ''2'' \<mapsto> 1, ''3'' \<mapsto> 2]\<rparr>"
  have "RemovePlaylist exampleStore ''3'' = Inr (ds', True, None)"
    by (simp add: RemovePlaylist_def exampleStore_def exampleSnapshot_def ds'_def Let_def)
  moreover have "length (Playlists ds') = 2" "playlistMap ds' ''3'' = Some 2"
    by (simp_all add: ds'_def exampleSnapshot_def)
  moreover have "RemovePlaylist ds' ''3'' = Inl (IndexOutOfRange 2 2)"
    by (simp add: RemovePlaylist_def ds'_def exampleSnapshot_def)
  ultimately show ?thesis by blast
qed

subsection \<open>Construction and malformed ids\<close>

text \<open>
  C2, as the code has it. Construction fails exactly when some playlist id is not a
  string \<^verbatim>\<open>strconv.Atoi\<close> accepts: an optional sign \<^verbatim>\<open>+\<close> or \<^verbatim>\<open>-\<close>, then
  decimal digits only and at least one, the value within the range of \<^verbatim>\<open>int\<close>. The
  error is the parse error of such an id. An id with a minus sign is accepted.
\<close>

theorem NewDataStore_fails_iff:
  "(snd (NewDataStore snap) \<noteq> None \<longleftrightarrow>
      (\<exists>p\<in>set (playlists snap). \<not> intLiteral (Playlist.Id p))) \<and>
   (\<forall>e. snd (NewDataStore snap) = Some e \<longrightarrow>
      (\<exists>p\<in>set (playlists snap). \<exists>k. Atoi (Playlist.Id p) = Inl k \<and>
         e = MalformedIdentifier (Playlist.Id p) k))"
proof (intro conjI allI impI)
  show "snd (NewDataStore snap) \<noteq> None \<longleftrightarrow>
      (\<exists>p\<in>set (playlists snap). \<not> intLiteral (Playlist.Id p))"
    by (simp add: NewDataStore_error playlistLoop_error_iff Atoi_succeeds_iff)
next
  fix e assume "snd (NewDataStore snap) = Some e"
  then show "\<exists>p\<in>set (playlists snap). \<exists>k. Atoi (Playlist.Id p) = Inl k \<and>
         e = MalformedIdentifier (Playlist.Id p) k"
    by (simp add: NewDataStore_error playlistLoop_error)
qed

text \<open>
  The claim C2 as stated fails: the snapshot with the playlist id \<^verbatim>\<open>-5\<close> holds an id
  that is no non-negative integer, and the construction succeeds.
\<close>

theorem NewDataStore_accepts_negative_id:
  "\<not> (snd (NewDataStore negativeSnapshot) \<noteq> None \<longleftrightarrow>
       (\<exists>p\<in>set (playlists negativeSnapshot). \<not> nonNegativeLiteral (Playlist.Id p)))"
  by (simp add: NewDataStore_negative)
    (simp add: negativeSnapshot_def nonNegativeLiteral_def isDigit_def)

theorem NewDataStore_fails_iff_witness:
  "snd (NewDataStore malformedSnapshot) = Some (MalformedIdentifier ''x2'' ErrSyntax) \<and>
   snd (NewDataStore negativeSnapshot) = None"
proof -
  have a: "\<exists>p\<in>set (playlists malformedSnapshot). \<not> intLiteral (Playlist.Id p)"
    by (simp add: malformedSnapshot_def intLiteral_def isDigit_def)
  have b: "\<not> (\<exists>p\<in>set (playlists negativeSnapshot). \<not> intLiteral (Playlist.Id p))"
    by (simp add: negativeSnapshot_def intLiteral_def isDigit_def decimalValue_def)
  from a have "snd (NewDataStore malformedSnapshot) \<noteq> None"
    using NewDataStore_fails_iff [of malformedSnapshot] by blast
  then obtain e where e: "snd (NewDataStore malformedSnapshot) = Some e"
    by blast
  then obtain p k where "p \<in> set (playlists malformedSnapshot)" "Atoi (Playlist.Id p) = Inl k"
    "e = MalformedIdentifier (Playlist.Id p) k"
    using NewDataStore_fails_iff [of malformedSnapshot] by blast
  then have "e = MalformedIdentifier ''x2'' ErrSyntax"
    by (auto simp: malformedSnapshot_def Atoi_small Atoi_malformed)
  moreover from b have "snd (NewDataStore negativeSnapshot) = None"
    using NewDataStore_fails_iff [of negativeSnapshot] by blast
  ultimately show ?thesis using e by simp
qed

subsection \<open>The counter after a load\<close>

lemma largest_after_load:
  assumes "NewDataStore snap = (ds, None)"
  shows "\<exists>mx. sint mx = largestId (playlists snap) \<and> nextPlaylistId ds = mx + 1"
proof -
  define mx where "mx = fst (snd (playlistLoop 0 (playlists snap) Map.empty 0))"
  from assms have "snd (snd (playlistLoop 0 (playlists snap) Map.empty 0)) = None"
    using NewDataStore_error [of snap] by simp
  then have "sint mx = Max (insert (sint (0 :: go_int))
      (set (map (\<lambda>p. numericId (Playlist.Id p)) (playlists snap))))"
    unfolding mx_def by (rule playlistLoop_max)
  then have "sint mx = largestId (playlists snap)"
    by (simp add: largestId_def)
  moreover from assms have "nextPlaylistId ds = mx + 1"
    using NewDataStore_success [of snap ds] by (simp add: mx_def)
  ultimately show ?thesis by blast
qed

lemma counter_after_load:
  assumes "NewDataStore snap = (ds, None)"
  shows "nextPlaylistId ds = word_of_int (1 + largestId (playlists snap))"
proof -
  from largest_after_load [OF assms] obtain mx
    where mx: "sint mx = largestId (playlists snap)" and nx: "nextPlaylistId ds = mx + 1"
    by blast
  have "mx + 1 = word_of_int (sint mx) + 1"
    by simp
  with mx nx show ?thesis
    by (simp add: add.commute)
qed

lemma counter_after_load_exact:
  assumes "NewDataStore snap = (ds, None)" and "largestId (playlists snap) < 2 ^ 63 - 1"
  shows "sint (nextPlaylistId ds) = 1 + largestId (playlists snap)"
proof -
  from largest_after_load [OF assms(1)] obtain mx
    where mx: "sint mx = largestId (playlists snap)" and nx: "nextPlaylistId ds = mx + 1"
    by blast
  from assms(2) mx have "mx \<noteq> maxInt"
    using sint_maxInt by auto
  then have "sint (mx + 1) = sint mx + 1"
    by (rule sint_succ)
  with mx nx show ?thesis by simp
qed

text \<open>
  C3, as the code has it. After a successful construction the counter is 1 plus the
  largest of 0 and the playlist ids, in the wrapping arithmetic of \<^verbatim>\<open>int\<close>; when that
  largest value is below \<open>2 ^ 63 - 1\<close> nothing wraps and the counter is that number.
\<close>

theorem nextPlaylistId_after_load:
  assumes "NewDataStore snap = (ds, None)"
  shows "nextPlaylistId ds = word_of_int (1 + largestId (playlists snap)) \<and>
         (largestId (playlists snap) < 2 ^ 63 - 1 \<longrightarrow>
            sint (nextPlaylistId ds) = 1 + largestId (playlists snap))"
  using counter_after_load [OF assms] counter_after_load_exact [OF assms] by blast

text \<open>
  The claim C3 as stated fails. With the one playlist id \<^verbatim>\<open>-5\<close> the counter is 1,
  not \<open>- 4\<close>; with the largest \<^verbatim>\<open>int\<close> among the ids the counter wraps to the
  smallest one.
\<close>

theorem nextPlaylistId_not_one_plus_max:
  "snd (NewDataStore negativeSnapshot) = None \<and>
   sint (nextPlaylistId (fst (NewDataStore negativeSnapshot))) = 1 \<and>
   claimedNextId (playlists negativeSnapshot) = - 4 \<and>
   snd (NewDataStore largestSnapshot) = None \<and>
   sint (nextPlaylistId (fst (NewDataStore largestSnapshot))) = - 9223372036854775808 \<and>
   claimedNextId (playlists largestSnapshot) = 9223372036854775808"
proof -
  have "claimedNextId (playlists negativeSnapshot) = - 4"
    by (simp add: claimedNextId_def negativeSnapshot_def numericId_def Atoi_negative)
  moreover have "claimedNextId (playlists largestSnapshot) = 9223372036854775808"
    by (simp add: claimedNextId_def largestSnapshot_def numericId_def Atoi_largest Atoi_smallest)
  ultimately show ?thesis
    by (simp add: NewDataStore_negative NewDataStore_largest)
qed

theorem nextPlaylistId_after_load_witness:
  "nextPlaylistId exampleStore = 4 \<and> largestId (playlists exampleSnapshot) = 3 \<and>
   sint (nextPlaylistId exampleStore) = 1 + largestId (playlists exampleSnapshot)"
proof -
  have l: "largestId (playlists exampleSnapshot) = 3"
    by (simp add: largestId_def exampleSnapshot_def numericId_def Atoi_small)
  then have "largestId (playlists exampleSnapshot) < 2 ^ 63 - 1"
    by simp
  with nextPlaylistId_after_load [OF NewDataStore_example]
  have "sint (nextPlaylistId exampleStore) = 1 + largestId (playlists exampleSnapshot)"
    by blast
  moreover have "nextPlaylistId exampleStore = 4"
    using nextPlaylistId_after_load [OF NewDataStore_example] l by simp
  ultimately show ?thesis using l by blast
qed

subsection \<open>The lookup tables after a load\<close>

text \<open>
  C4, as the code has it. After a successful construction the collections are those of
  the snapshot, and in each of the three tables the id of every entity leads to the last
  position that holds an entity with that id. Where the ids of a collection are distinct,
  that is the position of the entity itself.
\<close>

theorem lookup_tables_after_load:
  assumes "NewDataStore snap = (ds, None)"
  shows "Users ds = users snap \<and> Songs ds = songs snap \<and> Playlists ds = playlists snap \<and>
         resolvesToLast User.Id (Users ds) (userMap ds) \<and>
         resolvesToLast Song.Id (Songs ds) (songMap ds) \<and>
         resolvesToLast Playlist.Id (Playlists ds) (playlistMap ds) \<and>
         (distinct (map User.Id (Users ds)) \<longrightarrow> resolvesToEntity User.Id (Users ds) (userMap ds)) \<and>
         (distinct (map Song.Id (Songs ds)) \<longrightarrow> resolvesToEntity Song.Id (Songs ds) (songMap ds)) \<and>
         (distinct (map Playlist.Id (Playlists ds)) \<longrightarrow>
            resolvesToEntity Playlist.Id (Playlists ds) (playlistMap ds))"
proof -
  note ds = NewDataStore_success [OF assms]
  have u: "resolvesToLast User.Id (Users ds) (userMap ds)"
    by (subst (1 2) ds) (simp add: indexLoop_resolvesToLast)
  have s: "resolvesToLast Song.Id (Songs ds) (songMap ds)"
    by (subst (1 2) ds) (simp add: indexLoop_resolvesToLast)
  have p: "resolvesToLast Playlist.Id (Playlists ds) (playlistMap ds)"
    by (subst (1 2) ds) (simp add: indexLoop_resolvesToLast)
  have "Users ds = users snap" "Songs ds = songs snap" "Playlists ds = playlists snap"
    by (subst ds, simp)+
  moreover note u s p
  moreover have "distinct (map User.Id (Users ds)) \<longrightarrow>
      resolvesToEntity User.Id (Users ds) (userMap ds)"
    using u by (simp add: resolvesToLast_distinct)
  moreover have "distinct (map Song.Id (Songs ds)) \<longrightarrow>
      resolvesToEntity Song.Id (Songs ds) (songMap ds)"
    using s by (simp add: resolvesToLast_distinct)
  moreover have "distinct (map Playlist.Id (Playlists ds)) \<longrightarrow>
      resolvesToEntity Playlist.Id (Playlists ds) (playlistMap ds)"
    using p by (simp add: resolvesToLast_distinct)
  ultimately show ?thesis
    by simp
qed

text \<open>
  The claim C4 as stated fails: of two users with the same id the table leads to the
  second, so the id of the first user does not resolve to the first user.
\<close>

theorem duplicate_id_resolves_to_last:
  "snd (NewDataStore duplicateSnapshot) = None \<and>
   \<not> resolvesToEntity User.Id (Users (fst (NewDataStore duplicateSnapshot)))
        (userMap (fst (NewDataStore duplicateSnapshot)))"
proof -
  have e: "snd (NewDataStore duplicateSnapshot) = None"
    by (simp add: NewDataStore_error duplicateSnapshot_def exampleSnapshot_def Atoi_small
        word_sless_alt)
  then obtain ds where ds: "NewDataStore duplicateSnapshot = (ds, None)"
    by (cases "NewDataStore duplicateSnapshot") simp
  note eq = NewDataStore_success [OF ds]
  have u: "Users ds = users duplicateSnapshot"
    by (subst eq) simp
  have m: "userMap ds ''1'' = Some 1"
    by (subst eq) (simp add: duplicateSnapshot_def)
  have "\<not> resolvesToEntity User.Id (Users ds) (userMap ds)"
  proof
    assume "resolvesToEntity User.Id (Users ds) (userMap ds)"
    then have "\<exists>j<length (Users ds). userMap ds ''1'' = Some j \<and>
        Users ds ! j = \<lparr>User.Id = ''1'', Name = ''Albin Jaye''\<rparr>"
      unfolding resolvesToEntity_def u by (simp add: duplicateSnapshot_def)
    with m have "Users ds ! 1 = \<lparr>User.Id = ''1'', Name = ''Albin Jaye''\<rparr>"
      by auto
    then show False
      by (simp add: u duplicateSnapshot_def)
  qed
  with e ds show ?thesis by simp
qed

theorem lookup_tables_after_load_witness:
  "resolvesToEntity User.Id (Users exampleStore) (userMap exampleStore) \<and>
   resolvesToEntity Song.Id (Songs exampleStore) (songMap exampleStore) \<and>
   resolvesToEntity Playlist.Id (Playlists exampleStore) (playlistMap exampleStore) \<and>
   playlistMap exampleStore ''3'' = Some 2 \<and> Playlist.Id (Playlists exampleStore ! 2) = ''3''"
proof -
  have "distinct (map User.Id (Users exampleStore))"
    "distinct (map Song.Id (Songs exampleStore))"
    "distinct (map Playlist.Id (Playlists exampleStore))"
    by (simp_all add: exampleStore_def exampleSnapshot_def)
  with lookup_tables_after_load [OF NewDataStore_example]
  have "resolvesToEntity User.Id (Users exampleStore) (userMap exampleStore) \<and>
   resolvesToEntity Song.Id (Songs exampleStore) (songMap exampleStore) \<and>
   resolvesToEntity Playlist.Id (Playlists exampleStore) (playlistMap exampleStore)"
    by blast
  moreover have "playlistMap exampleStore ''3'' = Some 2 \<and>
      Playlist.Id (Playlists exampleStore ! 2) = ''3''"
    by (simp add: exampleStore_def exampleSnapshot_def)
  ultimately show ?thesis by blast
qed

subsection \<open>AddNewPlaylist: validation\<close>

lemma checkSongIds_None: "checkSongIds m songIds = None \<longleftrightarrow> (\<forall>s\<in>set songIds. m s \<noteq> None)"
  by (induction songIds) auto

lemma checkSongIds_Some: "checkSongIds m songIds = Some e \<Longrightarrow> e = UnknownSong"
  by (induction songIds) (auto split: if_splits)

text \<open>
  C5. AddNewPlaylist checks in this order: a user id missing from the user table
  gives UnknownUser; then an empty list of song ids gives EmptyPlaylist; then a song id
  missing from the song table gives UnknownSong. Whenever it returns an error, the store
  it leaves is the store it was given.
\<close>

theorem AddNewPlaylist_validation:
  "(userMap ds userId = None \<longrightarrow> AddNewPlaylist ds userId songIds = (ds, Inl UnknownUser)) \<and>
   (userMap ds userId \<noteq> None \<and> songIds = [] \<longrightarrow>
      AddNewPlaylist ds userId songIds = (ds, Inl EmptyPlaylist)) \<and>
   (userMap ds userId \<noteq> None \<and> songIds \<noteq> [] \<and> (\<exists>s\<in>set songIds. songMap ds s = None) \<longrightarrow>
      AddNewPlaylist ds userId songIds = (ds, Inl UnknownSong)) \<and>
   (\<forall>ds' e. AddNewPlaylist ds userId songIds = (ds', Inl e) \<longrightarrow> ds' = ds)"
proof (intro conjI impI allI)
  assume "userMap ds userId = None"
  then show "AddNewPlaylist ds userId songIds = (ds, Inl UnknownUser)"
    by (simp add: AddNewPlaylist_def)
next
  assume "userMap ds userId \<noteq> None \<and> songIds = []"
  then show "AddNewPlaylist ds userId songIds = (ds, Inl EmptyPlaylist)"
    by (simp add: AddNewPlaylist_def)
next
  assume a: "userMap ds userId \<noteq> None \<and> songIds \<noteq> [] \<and> (\<exists>s\<in>set songIds. songMap ds s = None)"
  then have "checkSongIds (songMap ds) songIds \<noteq> None"
    by (simp add: checkSongIds_None)
  then obtain e where e: "checkSongIds (songMap ds) songIds = Some e"
    by blast
  then have "e = UnknownSong"
    by (rule checkSongIds_Some)
  with a e show "AddNewPlaylist ds userId songIds = (ds, Inl UnknownSong)"
    by (simp add: AddNewPlaylist_def)
next
  fix ds' e
  assume "AddNewPlaylist ds userId songIds = (ds', Inl e)"
  then show "ds' = ds"
    by (auto simp: AddNewPlaylist_def Let_def split: if_splits option.splits prod.splits)
qed

theorem AddNewPlaylist_validation_witness:
  "AddNewPlaylist exampleStore ''bad-id'' [''1'', ''2''] = (exampleStore, Inl UnknownUser) \<and>
   AddNewPlaylist exampleStore ''1'' [] = (exampleStore, Inl EmptyPlaylist) \<and>
   AddNewPlaylist exampleStore ''1'' [''bad-id'', ''2''] = (exampleStore, Inl UnknownSong)"
proof (intro conjI)
  have "userMap exampleStore ''bad-id'' = None"
    by (simp add: exampleStore_def)
  with AddNewPlaylist_validation [of exampleStore "''bad-id''" "[''1'', ''2'']"]
  show "AddNewPlaylist exampleStore ''bad-id'' [''1'', ''2''] = (exampleStore, Inl UnknownUser)"
    by blast
next
  have "userMap exampleStore ''1'' \<noteq> None"
    by (simp add: exampleStore_def)
  with AddNewPlaylist_validation [of exampleStore "''1''" "[]"]
  show "AddNewPlaylist exampleStore ''1'' [] = (exampleStore, Inl EmptyPlaylist)"
    by blast
next
  have "userMap exampleStore ''1'' \<noteq> None \<and> [''bad-id'', ''2''] \<noteq> []
      \<and> (\<exists>s\<in>set [''bad-id'', ''2'']. songMap exampleStore s = None)"
    by (simp add: exampleStore_def)
  with AddNewPlaylist_validation [of exampleStore "''1''" "[''bad-id'', ''2'']"]
  show "AddNewPlaylist exampleStore ''1'' [''bad-id'', ''2''] = (exampleStore, Inl UnknownSong)"
    by blast
qed

subsection \<open>AddNewPlaylist: success\<close>

lemma AddNewPlaylist_valid:
  assumes "userMap ds userId \<noteq> None" and "songIds \<noteq> []"
    and "\<forall>s\<in>set songIds. songMap ds s \<noteq> None"
  shows "AddNewPlaylist ds userId songIds =
           (ds\<lparr>Playlists := Playlists ds @
                   [\<lparr>Playlist.Id = Itoa (nextPlaylistId ds), UserId = userId, SongIds = songIds\<rparr>],
                playlistMap := (playlistMap ds)(Itoa (nextPlaylistId ds) \<mapsto> length (Playlists ds)),
                nextPlaylistId := nextPlaylistId ds + 1\<rparr>,
            Inr (Itoa (nextPlaylistId ds)))"
proof -
  from assms(3) have "checkSongIds (songMap ds) songIds = None"
    by (simp add: checkSongIds_None)
  with assms(1,2) show ?thesis
    by (simp add: AddNewPlaylist_def generatePlaylistId_def Let_def)
qed

lemma copySongIds_elems:
  assumes "validSlice mem s" and "copySongIds mem s = (mem', c)"
  shows "c = \<lparr>array = length mem, offset = 0, len = len s\<rparr>"
    and "length mem' = Suc (length mem)"
    and "mem' ! length mem = elems mem s"
    and "elems mem' c = elems mem s"
proof -
  from assms(1) have a: "array s < length mem" and b: "offset s + len s \<le> length (mem ! array s)"
    by (simp_all add: validSlice_def)
  have e: "elems (mem @ [replicate (len s) []]) s = elems mem s"
    using a by (simp add: elems_def nth_append)
  have l: "length (elems mem s) = len s"
    using b by (simp add: elems_def)
  from assms(2) show c: "c = \<lparr>array = length mem, offset = 0, len = len s\<rparr>"
    by (auto simp: copySongIds_def makeSlice_def)
  from assms(2) show "length mem' = Suc (length mem)"
    by (auto simp: copySongIds_def makeSlice_def copySlice_def Let_def)
  from assms(2) show m: "mem' ! length mem = elems mem s"
    by (auto simp: copySongIds_def makeSlice_def copySlice_def Let_def e l)
  show "elems mem' c = elems mem s"
    using l by (simp add: c elems_def m)
qed

lemma setIndex_other:
  assumes "setIndex mem t i v = Inr mem''" and "array t \<noteq> a"
  shows "mem'' ! a = mem ! a"
  using assms by (auto simp: setIndex_def split: if_splits)

text \<open>
  C6. For a user id in the user table and a non-empty list of song ids that are all in
  the song table, AddNewPlaylist returns the decimal string of the counter as it was
  before the call, adds one to the counter, appends one playlist with that id, the user
  id and exactly the given song ids in their order, and enters the id in the playlist
  table at the position of the new playlist (the old length of the collection). The
  song ids it stores are the contents of the slice that \<open>copySongIds\<close> allocates: a
  new array, so that no assignment through a slice that existed before the call (the
  caller's among them) changes them.
\<close>

theorem AddNewPlaylist_success:
  assumes "userMap ds userId \<noteq> None" and "songIds \<noteq> []"
    and "\<forall>s\<in>set songIds. songMap ds s \<noteq> None"
  shows "AddNewPlaylist ds userId songIds =
           (ds\<lparr>Playlists := Playlists ds @
                   [\<lparr>Playlist.Id = Itoa (nextPlaylistId ds), UserId = userId, SongIds = songIds\<rparr>],
                playlistMap := (playlistMap ds)(Itoa (nextPlaylistId ds) \<mapsto> length (Playlists ds)),
                nextPlaylistId := nextPlaylistId ds + 1\<rparr>,
            Inr (Itoa (nextPlaylistId ds))) \<and>
         (\<forall>mem s mem' c. validSlice mem s \<and> elems mem s = songIds \<and> copySongIds mem s = (mem', c) \<longrightarrow>
            elems mem' c = songIds \<and>
            (\<forall>t i v mem''. validSlice mem t \<and> setIndex mem' t i v = Inr mem'' \<longrightarrow>
               elems mem'' c = songIds))"
proof (intro conjI allI impI)
  from assms show "AddNewPlaylist ds userId songIds =
           (ds\<lparr>Playlists := Playlists ds @
                   [\<lparr>Playlist.Id = Itoa (nextPlaylistId ds), UserId = userId, SongIds = songIds\<rparr>],
                playlistMap := (playlistMap ds)(Itoa (nextPlaylistId ds) \<mapsto> length (Playlists ds)),
                nextPlaylistId := nextPlaylistId ds + 1\<rparr>,
            Inr (Itoa (nextPlaylistId ds)))"
    by (rule AddNewPlaylist_valid)
next
  fix mem s mem' c
  assume a: "validSlice mem s \<and> elems mem s = songIds \<and> copySongIds mem s = (mem', c)"
  then show "elems mem' c = songIds"
    using copySongIds_elems(4) by blast
next
  fix mem s mem' c t i v mem''
  assume a: "validSlice mem s \<and> elems mem s = songIds \<and> copySongIds mem s = (mem', c)"
    and b: "validSlice mem t \<and> setIndex mem' t i v = Inr mem''"
  from a have c: "array c = length mem" "elems mem' c = songIds"
    using copySongIds_elems(1,4) [of mem s mem' c] by simp_all
  from b have "array t \<noteq> length mem"
    by (simp add: validSlice_def)
  with b have "mem'' ! array c = mem' ! array c"
    using setIndex_other c(1) by metis
  with c(2) show "elems mem'' c = songIds"
    by (simp add: elems_def)
qed

lemma Itoa_4: "Itoa 4 = ''4''"
  by (simp add: itoa_defs)

theorem AddNewPlaylist_success_witness:
  "AddNewPlaylist exampleStore ''1'' [''1'', ''2''] =
     (exampleStore\<lparr>Playlists := Playlists exampleStore @
                      [\<lparr>Playlist.Id = ''4'', UserId = ''1'', SongIds = [''1'', ''2'']\<rparr>],
                   playlistMap := (playlistMap exampleStore)(''4'' \<mapsto> 3),
                   nextPlaylistId := 5\<rparr>,
      Inr ''4'') \<and>
   elems exampleMemory exampleSlice = [''1'', ''2''] \<and>
   (\<exists>mem' c mem''. copySongIds exampleMemory exampleSlice = (mem', c) \<and>
      setIndex mem' exampleSlice 0 ''3'' = Inr mem'' \<and>
      elems mem'' exampleSlice = [''3'', ''2''] \<and>
      elems mem'' c = [''1'', ''2''])"
proof -
  have h1: "userMap exampleStore ''1'' \<noteq> None"
    and h2: "[''1'', ''2''] \<noteq> ([] :: string list)"
    and h3: "\<forall>s\<in>set [''1'', ''2'']. songMap exampleStore s \<noteq> None"
    by (simp_all add: exampleStore_def)
  note r = AddNewPlaylist_success [OF h1 h2 h3]
  have n: "nextPlaylistId exampleStore = 4" "length (Playlists exampleStore) = 3"
    by (simp_all add: exampleStore_def exampleSnapshot_def)
  define mem' where "mem' = [[''add-playlist'', ''1'', ''1'', ''2''], [''1'', ''2'']]"
  define c where "c = \<lparr>array = 1, offset = 0, len = 2\<rparr>"
  define mem'' where "mem'' = [[''add-playlist'', ''1'', ''3'', ''2''], [''1'', ''2'']]"
  have v: "validSlice exampleMemory exampleSlice"
    by (simp add: validSlice_def exampleMemory_def exampleSlice_def)
  have e: "elems exampleMemory exampleSlice = [''1'', ''2'']"
    by (simp add: elems_def exampleMemory_def exampleSlice_def)
  have cp: "copySongIds exampleMemory exampleSlice = (mem', c)"
    by (simp add: copySongIds_def makeSlice_def copySlice_def elems_def exampleMemory_def
        exampleSlice_def mem'_def c_def numeral_2_eq_2)
  have si: "setIndex mem' exampleSlice 0 ''3'' = Inr mem''"
    by (simp add: setIndex_def exampleSlice_def mem'_def mem''_def numeral_2_eq_2)
  have es: "elems mem'' exampleSlice = [''3'', ''2'']"
    by (simp add: elems_def exampleSlice_def mem''_def numeral_2_eq_2)
  from r have r1: "AddNewPlaylist exampleStore ''1'' [''1'', ''2''] =
     (exampleStore\<lparr>Playlists := Playlists exampleStore @
                      [\<lparr>Playlist.Id = ''4'', UserId = ''1'', SongIds = [''1'', ''2'']\<rparr>],
                   playlistMap := (playlistMap exampleStore)(''4'' \<mapsto> 3),
                   nextPlaylistId := 5\<rparr>,
      Inr ''4'')"
    by (simp only: n Itoa_4) simp
  from r have r2: "validSlice exampleMemory exampleSlice \<and>
      elems exampleMemory exampleSlice = [''1'', ''2''] \<and>
      copySongIds exampleMemory exampleSlice = (mem', c) \<longrightarrow>
      (\<forall>t i v m. validSlice exampleMemory t \<and> setIndex mem' t i v = Inr m \<longrightarrow>
          elems m c = [''1'', ''2''])"
    by blast
  with v e cp si have r3: "elems mem'' c = [''1'', ''2'']"
    by blast
  from r1 e cp si es r3 show ?thesis
    by blast
qed

subsection \<open>AddSongToPlaylist\<close>



subsection \<open>Command dispatch\<close>

lemma commandHandlers_simps:
  "commandHandlers ADD_PLAYLIST = Some addNewPlaylist"
  "commandHandlers ADD_SONG_TO_PLAYLIST = Some addSongToPlaylist"
  "commandHandlers REMOVE_PLAYLIST = Some removePlaylist"
  "c \<noteq> ADD_PLAYLIST \<Longrightarrow> c \<noteq> ADD_SONG_TO_PLAYLIST \<Longrightarrow> c \<noteq> REMOVE_PLAYLIST \<Longrightarrow>
     commandHandlers c = None"
  by (simp_all add: commandHandlers_def ADD_PLAYLIST_def ADD_SONG_TO_PLAYLIST_def
      REMOVE_PLAYLIST_def)

text \<open>
  C9. ProcessCommand returns EmptyCommand for the empty record and UnknownCommand with
  the offending name for a name that is none of the three commands. add-playlist with
  fewer than two arguments, add-song-to-playlist with a number of arguments other than
  two and rm-playlist with a number other than one return an ArityError (inside the
  wrapper every handler error gets) and leave the processor and its store as they were.
  With the right number of arguments the command is what the store operation on those
  arguments makes of it.
\<close>

theorem ProcessCommand_dispatch:
  "ProcessCommand cp [] = Inr (cp, Some EmptyCommand) \<and>
   (c \<noteq> ADD_PLAYLIST \<and> c \<noteq> ADD_SONG_TO_PLAYLIST \<and> c \<noteq> REMOVE_PLAYLIST \<longrightarrow>
      ProcessCommand cp (c # args) = Inr (cp, Some (UnknownCommand c))) \<and>
   (length args < 2 \<longrightarrow>
      ProcessCommand cp (ADD_PLAYLIST # args) =
        Inr (cp, Some (CommandFailed (ADD_PLAYLIST # args) (ArityError ADD_PLAYLIST)))) \<and>
   (length args \<noteq> 2 \<longrightarrow>
      ProcessCommand cp (ADD_SONG_TO_PLAYLIST # args) =
        Inr (cp, Some (CommandFailed (ADD_SONG_TO_PLAYLIST # args)
                         (ArityError ADD_SONG_TO_PLAYLIST)))) \<and>
   (length args \<noteq> 1 \<longrightarrow>
      ProcessCommand cp (REMOVE_PLAYLIST # args) =
        Inr (cp, Some (CommandFailed (REMOVE_PLAYLIST # args) (ArityError REMOVE_PLAYLIST)))) \<and>
   (2 \<le> length args \<longrightarrow>
      ProcessCommand cp (ADD_PLAYLIST # args) =
        (case AddNewPlaylist (DataStore cp) (hd args) (tl args) of
           (ds, Inl err) \<Rightarrow>
             Inr (cp\<lparr>DataStore := ds\<rparr>, Some (CommandFailed (ADD_PLAYLIST # args) err))
         | (ds, Inr newId) \<Rightarrow> Inr (cp\<lparr>DataStore := ds\<rparr>, None))) \<and>
   ProcessCommand cp [ADD_SONG_TO_PLAYLIST, playlistId, songId] =
     (case AddSongToPlaylist (DataStore cp) playlistId songId of
        Inl p \<Rightarrow> Inl p
      | Inr (ds, Some err) \<Rightarrow>
          Inr (cp\<lparr>DataStore := ds\<rparr>,
               Some (CommandFailed [ADD_SONG_TO_PLAYLIST, playlistId, songId] err))
      | Inr (ds, None) \<Rightarrow> Inr (cp\<lparr>DataStore := ds\<rparr>, None)) \<and>
   ProcessCommand cp [REMOVE_PLAYLIST, playlistId] =
     (case RemovePlaylist (DataStore cp) playlistId of
        Inl p \<Rightarrow> Inl p
      | Inr (ds, removed, err) \<Rightarrow> Inr (cp\<lparr>DataStore := ds\<rparr>, None))"
proof (intro conjI impI)
  show "ProcessCommand cp [] = Inr (cp, Some EmptyCommand)"
    by (simp add: ProcessCommand_def)
next
  assume "c \<noteq> ADD_PLAYLIST \<and> c \<noteq> ADD_SONG_TO_PLAYLIST \<and> c \<noteq> REMOVE_PLAYLIST"
  then show "ProcessCommand cp (c # args) = Inr (cp, Some (UnknownCommand c))"
    by (simp add: ProcessCommand_def commandHandlers_simps)
next
  assume "length args < 2"
  then show "ProcessCommand cp (ADD_PLAYLIST # args) =
      Inr (cp, Some (CommandFailed (ADD_PLAYLIST # args) (ArityError ADD_PLAYLIST)))"
    by (simp add: ProcessCommand_def commandHandlers_simps addNewPlaylist_def)
next
  assume "length args \<noteq> 2"
  then show "ProcessCommand cp (ADD_SONG_TO_PLAYLIST # args) =
      Inr (cp, Some (CommandFailed (ADD_SONG_TO_PLAYLIST # args) (ArityError ADD_SONG_TO_PLAYLIST)))"
    by (simp add: ProcessCommand_def commandHandlers_simps addSongToPlaylist_def)
next
  assume "length args \<noteq> 1"
  then show "ProcessCommand cp (REMOVE_PLAYLIST # args) =
      Inr (cp, Some (CommandFailed (REMOVE_PLAYLIST # args) (ArityError REMOVE_PLAYLIST)))"
    by (simp add: ProcessCommand_def commandHandlers_simps removePlaylist_def)
next
  assume a: "2 \<le> length args"
  then obtain u ss where args: "args = u # ss"
    by (cases args) auto
  then have "drop 2 (ADD_PLAYLIST # args) = tl args" "(ADD_PLAYLIST # args) ! 1 = hd args"
    by simp_all
  with a show "ProcessCommand cp (ADD_PLAYLIST # args) =
        (case AddNewPlaylist (DataStore cp) (hd args) (tl args) of
           (ds, Inl err) \<Rightarrow>
             Inr (cp\<lparr>DataStore := ds\<rparr>, Some (CommandFailed (ADD_PLAYLIST # args) err))
         | (ds, Inr newId) \<Rightarrow> Inr (cp\<lparr>DataStore := ds\<rparr>, None))"
    by (simp add: ProcessCommand_def commandHandlers_simps addNewPlaylist_def Let_def
        split: prod.splits sum.splits)
next
  show "ProcessCommand cp [ADD_SONG_TO_PLAYLIST, playlistId, songId] =
     (case AddSongToPlaylist (DataStore cp) playlistId songId of
        Inl p \<Rightarrow> Inl p
      | Inr (ds, Some err) \<Rightarrow>
          Inr (cp\<lparr>DataStore := ds\<rparr>,
               Some (CommandFailed [ADD_SONG_TO_PLAYLIST, playlistId, songId] err))
      | Inr (ds, None) \<Rightarrow> Inr (cp\<lparr>DataStore := ds\<rparr>, None))"
    by (simp add: ProcessCommand_def commandHandlers_simps addSongToPlaylist_def Let_def
        split: prod.splits sum.splits option.splits)
next
  have "\<And>ds removed err. RemovePlaylist (DataStore cp) playlistId = Inr (ds, removed, err) \<Longrightarrow> err = None"
    by (auto simp: RemovePlaylist_def Let_def split: option.splits if_splits)
  then show "ProcessCommand cp [REMOVE_PLAYLIST, playlistId] =
     (case RemovePlaylist (DataStore cp) playlistId of
        Inl p \<Rightarrow> Inl p
      | Inr (ds, removed, err) \<Rightarrow> Inr (cp\<lparr>DataStore := ds\<rparr>, None))"
    by (auto simp: ProcessCommand_def commandHandlers_simps removePlaylist_def Let_def
        split: prod.splits sum.splits option.splits)
qed

theorem ProcessCommand_dispatch_witness:
  "ProcessCommand exampleProcessor [] = Inr (exampleProcessor, Some EmptyCommand) \<and>
   ProcessCommand exampleProcessor [''play'', ''1''] =
     Inr (exampleProcessor, Some (UnknownCommand ''play'')) \<and>
   ProcessCommand exampleProcessor [''add-playlist'', ''1''] =
     Inr (exampleProcessor,
          Some (CommandFailed [''add-playlist'', ''1''] (ArityError ''add-playlist''))) \<and>
   ProcessCommand exampleProcessor [''add-song-to-playlist'', ''1''] =
     Inr (exampleProcessor,
          Some (CommandFailed [''add-song-to-playlist'', ''1'']
                  (ArityError ''add-song-to-playlist''))) \<and>
   ProcessCommand exampleProcessor [''rm-playlist'', ''1'', ''2''] =
     Inr (exampleProcessor,
          Some (CommandFailed [''rm-playlist'', ''1'', ''2''] (ArityError ''rm-playlist''))) \<and>
   ProcessCommand exampleProcessor [''add-playlist'', ''9'', ''1''] =
     Inr (exampleProcessor, Some (CommandFailed [''add-playlist'', ''9'', ''1''] UnknownUser))"
proof -
  have u: "''play'' \<noteq> ADD_PLAYLIST \<and> ''play'' \<noteq> ADD_SONG_TO_PLAYLIST \<and> ''play'' \<noteq> REMOVE_PLAYLIST"
    by (simp add: ADD_PLAYLIST_def ADD_SONG_TO_PLAYLIST_def REMOVE_PLAYLIST_def)
  note a = ProcessCommand_dispatch [of exampleProcessor "''play''" "[''1'']"]
  note b = ProcessCommand_dispatch [of exampleProcessor "''play''" "[''1'', ''2'']"]
  note c = ProcessCommand_dispatch [of exampleProcessor "''play''" "[''9'', ''1'']"]
  have l: "length [''1''] < (2::nat)" "length [''1''] \<noteq> (2::nat)" "length [''1'', ''2''] \<noteq> (1::nat)"
    "2 \<le> length [''9'', ''1'']"
    by simp_all
  have r0: "ProcessCommand exampleProcessor [] = Inr (exampleProcessor, Some EmptyCommand)"
    using a by blast
  have r1: "ProcessCommand exampleProcessor [''play'', ''1''] =
     Inr (exampleProcessor, Some (UnknownCommand ''play''))"
    using a u by blast
  have r2: "ProcessCommand exampleProcessor [ADD_PLAYLIST, ''1''] =
     Inr (exampleProcessor, Some (CommandFailed [ADD_PLAYLIST, ''1''] (ArityError ADD_PLAYLIST)))"
    using a l(1) by blast
  have r3: "ProcessCommand exampleProcessor [ADD_SONG_TO_PLAYLIST, ''1''] =
     Inr (exampleProcessor,
          Some (CommandFailed [ADD_SONG_TO_PLAYLIST, ''1''] (ArityError ADD_SONG_TO_PLAYLIST)))"
    using a l(2) by blast
  have r4: "ProcessCommand exampleProcessor [REMOVE_PLAYLIST, ''1'', ''2''] =
     Inr (exampleProcessor,
          Some (CommandFailed [REMOVE_PLAYLIST, ''1'', ''2''] (ArityError REMOVE_PLAYLIST)))"
    using b l(3) by blast
  have d: "AddNewPlaylist (DataStore exampleProcessor) (hd [''9'', ''1'']) (tl [''9'', ''1''])
      = (exampleStore, Inl UnknownUser)"
    by (simp add: AddNewPlaylist_def exampleProcessor_def NewCommandProcessor_def exampleStore_def)
  have e: "exampleProcessor\<lparr>DataStore := exampleStore\<rparr> = exampleProcessor"
    by (simp add: exampleProcessor_def NewCommandProcessor_def)
  from c l(4) have "ProcessCommand exampleProcessor (ADD_PLAYLIST # [''9'', ''1'']) =
        (case AddNewPlaylist (DataStore exampleProcessor) (hd [''9'', ''1'']) (tl [''9'', ''1'']) of
           (ds, Inl err) \<Rightarrow>
             Inr (exampleProcessor\<lparr>DataStore := ds\<rparr>,
                  Some (CommandFailed (ADD_PLAYLIST # [''9'', ''1'']) err))
         | (ds, Inr newId) \<Rightarrow> Inr (exampleProcessor\<lparr>DataStore := ds\<rparr>, None))"
    by blast
  then have r5: "ProcessCommand exampleProcessor [ADD_PLAYLIST, ''9'', ''1''] =
     Inr (exampleProcessor, Some (CommandFailed [ADD_PLAYLIST, ''9'', ''1''] UnknownUser))"
    by (simp only: d e prod.case sum.case)
  from r0 r1 r2 r3 r4 r5 show ?thesis
    unfolding ADD_PLAYLIST_def ADD_SONG_TO_PLAYLIST_def REMOVE_PLAYLIST_def by blast
qed

subsection \<open>ProcessAll\<close>

lemma commandHandlers_eval:
  "commandHandlers ''add-playlist'' = Some addNewPlaylist"
  "commandHandlers ''add-song-to-playlist'' = Some addSongToPlaylist"
  "commandHandlers ''rm-playlist'' = Some removePlaylist"
  using commandHandlers_simps(1-3)
  by (simp_all add: ADD_PLAYLIST_def ADD_SONG_TO_PLAYLIST_def REMOVE_PLAYLIST_def)

lemma handler_frame:
  "addNewPlaylist cp command = Inr (cp', e) \<Longrightarrow> errors cp' = errors cp \<and> Commands cp' = Commands cp"
  "addSongToPlaylist cp command = Inr (cp', e) \<Longrightarrow> errors cp' = errors cp \<and> Commands cp' = Commands cp"
  "removePlaylist cp command = Inr (cp', e) \<Longrightarrow> errors cp' = errors cp \<and> Commands cp' = Commands cp"
  by (auto simp: addNewPlaylist_def addSongToPlaylist_def removePlaylist_def Let_def
      split: if_splits list.splits prod.splits sum.splits option.splits)

lemma ProcessCommand_frame:
  assumes "ProcessCommand cp command = Inr (cp', e)"
  shows "errors cp' = errors cp \<and> Commands cp' = Commands cp"
proof (cases "command = []")
  case True
  with assms show ?thesis by (simp add: ProcessCommand_def)
next
  case False
  show ?thesis
  proof (cases "commandHandlers (command ! 0)")
    case None
    with False assms show ?thesis by (simp add: ProcessCommand_def)
  next
    case (Some h)
    then have "h = addNewPlaylist \<or> h = addSongToPlaylist \<or> h = removePlaylist"
      by (auto simp: commandHandlers_def split: if_splits)
    moreover from Some False assms obtain e' where "h cp command = Inr (cp', e')"
      by (auto simp: ProcessCommand_def Let_def split: sum.splits option.splits)
    ultimately show ?thesis
      using handler_frame by blast
  qed
qed

lemma processLoop_errors:
  "processLoop cp commands = Inr cp' \<Longrightarrow>
     \<exists>es. errors cp' = errors cp @ es \<and> length es \<le> length commands"
proof (induction commands arbitrary: cp)
  case Nil
  then show ?case by simp
next
  case (Cons command rest)
  from Cons.prems obtain cp1 e where c: "ProcessCommand cp command = Inr (cp1, e)"
    by (auto split: sum.splits)
  then have f: "errors cp1 = errors cp"
    using ProcessCommand_frame by blast
  show ?case
  proof (cases e)
    case None
    with c Cons.prems have "processLoop cp1 rest = Inr cp'" by simp
    from Cons.IH [OF this] f show ?thesis by auto
  next
    case (Some err)
    with c Cons.prems have "processLoop (cp1\<lparr>errors := errors cp1 @ [err]\<rparr>) rest = Inr cp'"
      by simp
    from Cons.IH [OF this] f obtain es where "errors cp' = (errors cp @ [err]) @ es"
      "length es \<le> length rest"
      by auto
    then have "errors cp' = errors cp @ (err # es) \<and> length (err # es) \<le> length (command # rest)"
      by simp
    then show ?thesis by blast
  qed
qed

lemma ProcessAll_returns:
  assumes "ProcessAll cp = Inr (cp', r)"
  shows "(r = None \<longleftrightarrow> errors cp' = []) \<and> (r \<noteq> None \<longrightarrow> r = Some ErrorsEncountered) \<and>
         length (errors cp') \<le> length (Commands cp)"
proof -
  from assms obtain cp1 where l: "processLoop (cp\<lparr>errors := []\<rparr>) (Commands cp) = Inr cp1"
    and r: "cp' = cp1" "r = (if length (errors cp1) \<noteq> 0 then Some ErrorsEncountered else None)"
    by (auto simp: ProcessAll_def split: sum.splits)
  from processLoop_errors [OF l] have "length (errors cp1) \<le> length (Commands cp)"
    by auto
  with r show ?thesis by auto
qed

lemma ProcessAll_mixed:
  "\<exists>cp. ProcessAll (NewCommandProcessor mixedCommands exampleStore) = Inr (cp, Some ErrorsEncountered) \<and>
     Errors cp = [CommandFailed [''add-song-to-playlist'', ''7'', ''2''] UnknownPlaylist] \<and>
     map (\<lambda>p. (Playlist.Id p, SongIds p)) (Playlists (DataStore cp)) =
       [(''1'', [''1'', ''3'', ''2'']), (''3'', [''3'', ''1'', ''2''])]"
  by (simp add: ProcessAll_def NewCommandProcessor_def mixedCommands_def ProcessCommand_def
      commandHandlers_eval removePlaylist_def RemovePlaylist_def addSongToPlaylist_def
      AddSongToPlaylist_def exampleStore_def exampleSnapshot_def Let_def Errors_def)

text \<open>
  C8 on the code. A run over a failing command between two that succeed records that one
  error and applies the other two (\<open>ProcessAll_mixed\<close>). But a run that removes the
  last playlist twice does not return: the second removal panics, for the reason given at
  C1, so the command after it is never dispatched and no error is recorded.
\<close>

theorem ProcessAll_panics:
  "ProcessAll (NewCommandProcessor panickingCommands exampleStore) = Inl (IndexOutOfRange 2 2)"
  by (simp add: ProcessAll_def NewCommandProcessor_def panickingCommands_def ProcessCommand_def
      commandHandlers_eval removePlaylist_def RemovePlaylist_def exampleStore_def
      exampleSnapshot_def Let_def)

subsection \<open>Fresh playlist ids\<close>

lemma Itoa_smallest: "Itoa (- 9223372036854775808) = ''-9223372036854775808''"
  by (simp add: itoa_defs)

lemma Itoa_5: "Itoa 5 = ''5''"
  by (simp add: itoa_defs)

lemma AddNewPlaylist_Inr:
  assumes "AddNewPlaylist ds userId songIds = (ds', Inr newId)"
  shows "newId = Itoa (nextPlaylistId ds)"
    and "nextPlaylistId ds' = nextPlaylistId ds + 1"
    and "Playlists ds' = Playlists ds @
           [\<lparr>Playlist.Id = Itoa (nextPlaylistId ds), UserId = userId, SongIds = songIds\<rparr>]"
  using assms
  by (auto simp: AddNewPlaylist_def generatePlaylistId_def Let_def
      split: if_splits option.splits)

lemma idsBelowCounter_load:
  assumes "NewDataStore snap = (ds, None)" and "largestId (playlists snap) < 2 ^ 63 - 1"
  shows "idsBelowCounter ds"
  unfolding idsBelowCounter_def
proof
  fix p assume "p \<in> set (Playlists ds)"
  then have p: "p \<in> set (playlists snap)"
    using NewDataStore_success [OF assms(1)] by (metis DataStore.select_convs(2))
  from assms(1) have "snd (snd (playlistLoop 0 (playlists snap) Map.empty 0)) = None"
    using NewDataStore_error [of snap] by simp
  with p obtain k where k: "Atoi (Playlist.Id p) = Inr k"
    by (auto simp: playlistLoop_error_iff)
  then have "sint k = numericId (Playlist.Id p)"
    by (simp add: numericId_Inr)
  also have "\<dots> \<le> largestId (playlists snap)"
    unfolding largestId_def using p by (intro Max_ge) auto
  also have "\<dots> < sint (nextPlaylistId ds)"
    using counter_after_load_exact [OF assms] by simp
  finally have "k <s nextPlaylistId ds"
    by (simp add: word_sless_alt)
  with k show "\<exists>k. Atoi (Playlist.Id p) = Inr k \<and> k <s nextPlaylistId ds"
    by blast
qed

lemma idsBelowCounter_add:
  assumes "idsBelowCounter ds" and "nextPlaylistId ds \<noteq> maxInt"
    and "AddNewPlaylist ds userId songIds = (ds', Inr newId)"
  shows "idsBelowCounter ds'"
proof -
  note r = AddNewPlaylist_Inr [OF assms(3)]
  have s: "sint (nextPlaylistId ds') = sint (nextPlaylistId ds) + 1"
    using sint_succ [OF assms(2)] r(2) by simp
  show ?thesis
    unfolding idsBelowCounter_def
  proof
    fix p assume "p \<in> set (Playlists ds')"
    then consider "p \<in> set (Playlists ds)" | "Playlist.Id p = Itoa (nextPlaylistId ds)"
      using r(3) by auto
    then show "\<exists>k. Atoi (Playlist.Id p) = Inr k \<and> k <s nextPlaylistId ds'"
    proof cases
      case 1
      with assms(1) obtain k where "Atoi (Playlist.Id p) = Inr k" "k <s nextPlaylistId ds"
        unfolding idsBelowCounter_def by blast
      with s show ?thesis by (auto simp: word_sless_alt)
    next
      case 2
      then have "Atoi (Playlist.Id p) = Inr (nextPlaylistId ds)"
        by (simp add: Atoi_Itoa)
      with s show ?thesis by (simp add: word_sless_alt)
    qed
  qed
qed

lemma AddSongToPlaylist_ids:
  assumes "AddSongToPlaylist ds playlistId songId = Inr (ds', err)"
  shows "map Playlist.Id (Playlists ds') = map Playlist.Id (Playlists ds)"
    and "nextPlaylistId ds' = nextPlaylistId ds"
proof -
  have "map Playlist.Id (Playlists ds') = map Playlist.Id (Playlists ds) \<and>
      nextPlaylistId ds' = nextPlaylistId ds"
  proof (cases "songMap ds songId = None")
    case True
    with assms show ?thesis by (simp add: AddSongToPlaylist_def)
  next
    case False
    show ?thesis
    proof (cases "playlistMap ds playlistId")
      case None
      with False assms show ?thesis by (auto simp: AddSongToPlaylist_def)
    next
      case (Some i)
      with False assms have i: "i < length (Playlists ds)"
        and ds': "ds' = ds\<lparr>Playlists := (Playlists ds)
           [i := (Playlists ds ! i)\<lparr>SongIds := SongIds (Playlists ds ! i) @ [songId]\<rparr>]\<rparr>"
        by (auto simp: AddSongToPlaylist_def Let_def split: if_splits)
      from i show ?thesis
        by (simp add: ds' map_update list_update_same_conv)
    qed
  qed
  then show "map Playlist.Id (Playlists ds') = map Playlist.Id (Playlists ds)"
    and "nextPlaylistId ds' = nextPlaylistId ds"
    by simp_all
qed

lemma RemovePlaylist_subset:
  assumes "RemovePlaylist ds ident = Inr (ds', removed, err)"
  shows "set (Playlists ds') \<subseteq> set (Playlists ds)"
    and "nextPlaylistId ds' = nextPlaylistId ds"
proof -
  have "set (Playlists ds') \<subseteq> set (Playlists ds) \<and> nextPlaylistId ds' = nextPlaylistId ds"
  proof (cases "playlistMap ds ident")
    case None
    with assms show ?thesis by (simp add: RemovePlaylist_def)
  next
    case (Some t)
    let ?ps = "Playlists ds"
    let ?last = "?ps ! (length ?ps - 1)"
    from Some assms have ne: "?ps \<noteq> []" and t: "t < length ?ps"
      and ps': "Playlists ds' = take (length ?ps - 1) (?ps[t := ?last])"
      and n: "nextPlaylistId ds' = nextPlaylistId ds"
      by (auto simp: RemovePlaylist_def Let_def split: if_splits)
    have "set (Playlists ds') \<subseteq> set (?ps[t := ?last])"
      unfolding ps' by (rule set_take_subset)
    also have "\<dots> \<subseteq> insert ?last (set ?ps)"
      by (rule set_update_subset_insert)
    also have "\<dots> \<subseteq> set ?ps"
      using ne by (simp add: nth_mem)
    finally show ?thesis using n by simp
  qed
  then show "set (Playlists ds') \<subseteq> set (Playlists ds)"
    and "nextPlaylistId ds' = nextPlaylistId ds"
    by simp_all
qed

lemma idsBelowCounter_song:
  assumes "idsBelowCounter ds" and "AddSongToPlaylist ds playlistId songId = Inr (ds', err)"
  shows "idsBelowCounter ds'"
  unfolding idsBelowCounter_def
proof
  fix p assume "p \<in> set (Playlists ds')"
  then have "Playlist.Id p \<in> set (map Playlist.Id (Playlists ds))"
    using AddSongToPlaylist_ids(1) [OF assms(2)] by (metis image_eqI set_map)
  then obtain q where "q \<in> set (Playlists ds)" "Playlist.Id p = Playlist.Id q"
    by auto
  with assms(1) show "\<exists>k. Atoi (Playlist.Id p) = Inr k \<and> k <s nextPlaylistId ds'"
    unfolding idsBelowCounter_def AddSongToPlaylist_ids(2) [OF assms(2)] by auto
qed

lemma idsBelowCounter_remove:
  assumes "idsBelowCounter ds" and "RemovePlaylist ds ident = Inr (ds', removed, err)"
  shows "idsBelowCounter ds'"
  using assms(1) RemovePlaylist_subset [OF assms(2)]
  unfolding idsBelowCounter_def by auto

lemma reachable_idsBelowCounter: "reachable ds \<Longrightarrow> idsBelowCounter ds"
proof (induction rule: reachable.induct)
  case (load snap ds)
  then show ?case by (rule idsBelowCounter_load)
next
  case (add ds userId songIds ds' newId)
  then show ?case using idsBelowCounter_add by blast
next
  case (song ds playlistId songId ds' err)
  then show ?case using idsBelowCounter_song by blast
next
  case (remove ds ident ds' removed err)
  then show ?case using idsBelowCounter_remove by blast
qed

text \<open>
  C10, as the code has it. In a store reached without the counter wrapping around, the
  id a successful AddNewPlaylist returns is the id of no playlist of the collection
  before the call.
\<close>

theorem generated_id_fresh:
  assumes "reachable ds" and "AddNewPlaylist ds userId songIds = (ds', Inr newId)"
  shows "\<forall>p\<in>set (Playlists ds). Playlist.Id p \<noteq> newId"
proof
  fix p assume p: "p \<in> set (Playlists ds)"
  from assms(1) have "idsBelowCounter ds"
    by (rule reachable_idsBelowCounter)
  with p obtain k where k: "Atoi (Playlist.Id p) = Inr k" "k <s nextPlaylistId ds"
    unfolding idsBelowCounter_def by blast
  show "Playlist.Id p \<noteq> newId"
  proof
    assume "Playlist.Id p = newId"
    then have "Atoi (Playlist.Id p) = Inr (nextPlaylistId ds)"
      using AddNewPlaylist_Inr(1) [OF assms(2)] by (simp add: Atoi_Itoa)
    with k show False by (simp add: word_sless_alt)
  qed
qed

text \<open>
  The claim C10 as stated fails. The snapshot with the ids \<^verbatim>\<open>9223372036854775807\<close>
  and \<^verbatim>\<open>-9223372036854775808\<close> loads, the counter wraps to the smallest \<^verbatim>\<open>int\<close>, and
  the first playlist added gets the id of the second loaded one.
\<close>

theorem generated_id_collides_after_overflow:
  "snd (NewDataStore largestSnapshot) = None \<and>
   (\<exists>ds'. AddNewPlaylist (fst (NewDataStore largestSnapshot)) ''1'' [''1''] =
      (ds', Inr ''-9223372036854775808'')) \<and>
   ''-9223372036854775808'' \<in>
      set (map Playlist.Id (Playlists (fst (NewDataStore largestSnapshot))))"
proof -
  have "\<exists>ds'. AddNewPlaylist (fst (NewDataStore largestSnapshot)) ''1'' [''1''] =
      (ds', Inr ''-9223372036854775808'')"
    by (simp add: NewDataStore_largest AddNewPlaylist_def generatePlaylistId_def Itoa_smallest)
      (simp add: exampleStore_def)
  moreover have "''-9223372036854775808'' \<in>
      set (map Playlist.Id (Playlists (fst (NewDataStore largestSnapshot))))"
    by (simp add: NewDataStore_largest) (simp add: largestSnapshot_def)
  ultimately show ?thesis
    by (simp add: NewDataStore_largest)
qed

theorem generated_id_fresh_witness:
  "reachable exampleStore \<and>
   (\<exists>ds1 ds2. AddNewPlaylist exampleStore ''1'' [''1'', ''2''] = (ds1, Inr ''4'') \<and>
      ''4'' \<notin> set (map Playlist.Id (Playlists exampleStore)) \<and>
      reachable ds1 \<and>
      AddNewPlaylist ds1 ''2'' [''3''] = (ds2, Inr ''5'') \<and>
      map Playlist.Id (Playlists ds1) = [''1'', ''2'', ''3'', ''4''] \<and>
      ''5'' \<notin> set (map Playlist.Id (Playlists ds1)))"
proof -
  have l: "largestId (playlists exampleSnapshot) < 2 ^ 63 - 1"
    by (simp add: largestId_def exampleSnapshot_def numericId_def Atoi_small)
  have r0: "reachable exampleStore"
    using NewDataStore_example l by (rule reachable.load)
  define ds1 where "ds1 = exampleStore\<lparr>Playlists := Playlists exampleStore @
       [\<lparr>Playlist.Id = ''4'', UserId = ''1'', SongIds = [''1'', ''2'']\<rparr>],
     playlistMap := (playlistMap exampleStore)(''4'' \<mapsto> 3), nextPlaylistId := 5\<rparr>"
  define ds2 where "ds2 = ds1\<lparr>Playlists := Playlists ds1 @
       [\<lparr>Playlist.Id = ''5'', UserId = ''2'', SongIds = [''3'']\<rparr>],
     playlistMap := (playlistMap ds1)(''5'' \<mapsto> 4), nextPlaylistId := 6\<rparr>"
  have e0: "nextPlaylistId exampleStore = 4" "length (Playlists exampleStore) = 3"
    by (simp_all add: exampleStore_def exampleSnapshot_def)
  have h1: "userMap exampleStore ''1'' \<noteq> None" "[''1'', ''2''] \<noteq> ([] :: string list)"
    "\<forall>s\<in>set [''1'', ''2'']. songMap exampleStore s \<noteq> None"
    by (simp_all add: exampleStore_def)
  have a1: "AddNewPlaylist exampleStore ''1'' [''1'', ''2''] = (ds1, Inr ''4'')"
    using AddNewPlaylist_valid [OF h1] by (simp only: e0 Itoa_4 ds1_def) simp
  have n0: "nextPlaylistId exampleStore \<noteq> maxInt"
    by (simp add: exampleStore_def maxInt_def)
  have r1: "reachable ds1"
    using r0 n0 a1 by (rule reachable.add)
  have e1: "nextPlaylistId ds1 = 5" "length (Playlists ds1) = 4"
    by (simp_all add: ds1_def exampleStore_def exampleSnapshot_def)
  have h2: "userMap ds1 ''2'' \<noteq> None" "[''3''] \<noteq> ([] :: string list)"
    "\<forall>s\<in>set [''3'']. songMap ds1 s \<noteq> None"
    by (simp_all add: ds1_def exampleStore_def)
  have a2: "AddNewPlaylist ds1 ''2'' [''3''] = (ds2, Inr ''5'')"
    using AddNewPlaylist_valid [OF h2] by (simp only: e1 Itoa_5 ds2_def) simp
  have ids: "map Playlist.Id (Playlists ds1) = [''1'', ''2'', ''3'', ''4'']"
    by (simp add: ds1_def exampleStore_def exampleSnapshot_def)
  have f0: "''4'' \<notin> set (map Playlist.Id (Playlists exampleStore))"
    using generated_id_fresh [OF r0 a1] by auto
  have f1: "''5'' \<notin> set (map Playlist.Id (Playlists ds1))"
    using generated_id_fresh [OF r1 a2] by auto
  from a1 f0 r1 a2 ids f1
  have "\<exists>ds1 ds2. AddNewPlaylist exampleStore ''1'' [''1'', ''2''] = (ds1, Inr ''4'') \<and>
      ''4'' \<notin> set (map Playlist.Id (Playlists exampleStore)) \<and>
      reachable ds1 \<and>
      AddNewPlaylist ds1 ''2'' [''3''] = (ds2, Inr ''5'') \<and>
      map Playlist.Id (Playlists ds1) = [''1'', ''2'', ''3'', ''4''] \<and>
      ''5'' \<notin> set (map Playlist.Id (Playlists ds1))"
    by (intro exI [of _ ds1] exI [of _ ds2] conjI)
  with r0 show ?thesis
    by (rule conjI)
qed

end
